theory Spec2Isabelle
  imports Complex_Main
begin


section \<open>Animation-frame bookkeeping and the three frame loops of script.js\<close>

text \<open>
  The browser side of \<open>requestAnimationFrame\<close> is a counter of handles (handles are
  positive) and the list of outstanding requests, each with the function it will call.
  The script side is the registry \<open>_rafIds\<close> and the variables the closures of
  \<open>initSkillsModule\<close>, \<open>initParticlesModule\<close> and \<open>initProjectsLayer\<close> keep.
  The page is taken to hold every element the modules look up, so that no module
  returns early from its initialisation.

  What a drawing body paints is kept as the number of shapes on the canvas since it was
  last cleared, and as the number of times the body has run; the positions of the
  particles are the subject of a later section.
\<close>

datatype callback = DrawSparkles | ParticlesLoop | AnimateWheels | RestoreCarTransition

record page =
  reduceMotion :: bool
  lowPerf :: bool
  next_handle :: nat
  frame_requests :: "(nat \<times> callback) list"
  rafIds :: "nat list"
  sparkleActive :: bool
  sparkleRafId :: "nat option"
  sparkle_shapes :: nat
  sparkle_frames :: nat
  running :: bool
  rafId :: "nat option"
  particle_shapes :: nat
  particle_frames :: nat
  wheelsRafId :: "nat option"
  wheel_nodes :: nat
  wheel_frames :: nat

text \<open>JavaScript truthiness of a variable that holds \<open>null\<close> or a handle.\<close>

fun truthy :: "nat option \<Rightarrow> bool" where
  "truthy None = False"
| "truthy (Some h) = (h \<noteq> 0)"

text \<open>\<open>raf(cb)\<close>: the browser queues the request and returns a fresh handle.\<close>

definition raf :: "callback \<Rightarrow> page \<Rightarrow> nat \<times> page" where
  "raf cb s =
     (next_handle s,
      s\<lparr>next_handle := Suc (next_handle s),
        frame_requests := frame_requests s @ [(next_handle s, cb)]\<rparr>)"

text \<open>\<open>cancelRaf(id)\<close>: the request with that handle, if still outstanding, is dropped.\<close>

definition cancelRaf :: "nat \<Rightarrow> page \<Rightarrow> page" where
  "cancelRaf h s = s\<lparr>frame_requests := filter (\<lambda>r. fst r \<noteq> h) (frame_requests s)\<rparr>"

definition cancelRaf_opt :: "nat option \<Rightarrow> page \<Rightarrow> page" where
  "cancelRaf_opt v s = (case v of None \<Rightarrow> s | Some h \<Rightarrow> cancelRaf h s)"

text \<open>\<open>function pushRaf(id) { if (id) _rafIds.push(id); }\<close>\<close>

definition pushRaf :: "nat \<Rightarrow> page \<Rightarrow> page" where
  "pushRaf h s = (if h \<noteq> 0 then s\<lparr>rafIds := rafIds s @ [h]\<rparr> else s)"

text \<open>\<open>function stopRafs() { while (_rafIds.length) cancelRaf(_rafIds.pop()); }\<close>\<close>

function stopRafs :: "page \<Rightarrow> page" where
  "stopRafs s =
     (if rafIds s = [] then s
      else stopRafs (cancelRaf (last (rafIds s)) (s\<lparr>rafIds := butlast (rafIds s)\<rparr>)))"
  by pat_completeness auto
termination
  by (relation "measure (\<lambda>s. length (rafIds s))") (auto simp: cancelRaf_def)

declare stopRafs.simps [simp del]

subsection \<open>Sparkle canvas (initSkillsModule)\<close>

definition sparkleCount :: "bool \<Rightarrow> nat" where
  "sparkleCount lp = (if lp then 40 else 120)"

definition drawSparkles :: "page \<Rightarrow> page" where
  "drawSparkles s =
     (if \<not> sparkleActive s \<or> reduceMotion s
      then s\<lparr>sparkle_shapes := 0, sparkleRafId := None\<rparr>
      else
        (let s1 = s\<lparr>sparkle_shapes := sparkleCount (lowPerf s),
                    sparkle_frames := Suc (sparkle_frames s)\<rparr>;
             (h, s2) = raf DrawSparkles s1;
             s3 = s2\<lparr>sparkleRafId := Some h\<rparr>
         in pushRaf h s3))"

text \<open>One entry of the sparkle IntersectionObserver's callback.\<close>

definition sparkle_entry :: "page \<Rightarrow> bool \<Rightarrow> page" where
  "sparkle_entry s isIntersecting =
     (let s1 = s\<lparr>sparkleActive := isIntersecting\<rparr>;
          s2 = (if sparkleActive s1 \<and> \<not> reduceMotion s1 \<and> \<not> truthy (sparkleRafId s1)
                then drawSparkles s1 else s1)
      in if \<not> sparkleActive s2 \<and> truthy (sparkleRafId s2)
         then (cancelRaf_opt (sparkleRafId s2) s2)\<lparr>sparkleRafId := None, sparkle_shapes := 0\<rparr>
         else s2)"

text \<open>\<open>resizeCanvas\<close>: assigning the width and height of a canvas clears its bitmap.\<close>

definition resizeCanvas :: "page \<Rightarrow> page" where
  "resizeCanvas s = s\<lparr>sparkle_shapes := 0\<rparr>"

subsection \<open>Contact particles canvas (initParticlesModule)\<close>

definition numDust :: "bool \<Rightarrow> nat" where
  "numDust lp = (if lp then 30 else 60)"

definition numCars :: "bool \<Rightarrow> nat" where
  "numCars lp = (if lp then 2 else 5)"

definition loop :: "page \<Rightarrow> page" where
  "loop s =
     (if \<not> running s \<or> reduceMotion s then s
      else
        (let s1 = s\<lparr>particle_shapes := numDust (lowPerf s) + numCars (lowPerf s),
                    particle_frames := Suc (particle_frames s)\<rparr>;
             (h, s2) = raf ParticlesLoop s1;
             s3 = s2\<lparr>rafId := Some h\<rparr>
         in pushRaf h s3))"

definition particles_entry :: "page \<Rightarrow> bool \<Rightarrow> page" where
  "particles_entry s isIntersecting =
     (let s1 = s\<lparr>running := isIntersecting\<rparr>
      in if running s1 \<and> \<not> reduceMotion s1 then loop s1 else s1)"

text \<open>\<open>setSize\<close> assigns the canvas size, which clears the bitmap; the debounced window
  handler runs \<open>setSize(); init();\<close>, and \<open>init\<close> only rebuilds the particle arrays.\<close>

definition setSize :: "page \<Rightarrow> page" where
  "setSize s = s\<lparr>particle_shapes := 0\<rparr>"

subsection \<open>Floating wheels (initProjectsLayer)\<close>

definition wheelCount :: "bool \<Rightarrow> nat" where
  "wheelCount lp = (if lp then 3 else 6)"

definition initWheels :: "page \<Rightarrow> page" where
  "initWheels s = s\<lparr>wheel_nodes := wheelCount (lowPerf s)\<rparr>"

definition animateWheels :: "page \<Rightarrow> page" where
  "animateWheels s =
     (let s1 = s\<lparr>wheel_frames := Suc (wheel_frames s)\<rparr>;
          (h, s2) = raf AnimateWheels s1;
          s3 = s2\<lparr>wheelsRafId := Some h\<rparr>
      in pushRaf h s3)"

definition wheels_entry :: "page \<Rightarrow> bool \<Rightarrow> page" where
  "wheels_entry s isIntersecting =
     (if isIntersecting \<and> \<not> reduceMotion s then animateWheels (initWheels s)
      else if truthy (wheelsRafId s)
           then (cancelRaf_opt (wheelsRafId s) s)\<lparr>wheelsRafId := None\<rparr>
           else s)"

definition wheels_resize :: "page \<Rightarrow> page" where
  "wheels_resize s =
     (let s1 = (if truthy (wheelsRafId s)
                then (cancelRaf_opt (wheelsRafId s) s)\<lparr>wheelsRafId := None\<rparr>
                else s)
      in animateWheels (initWheels s1))"

subsection \<open>Roadmap car: the one frame request that is not registered\<close>

text \<open>\<open>initCarPosition\<close> calls \<open>requestAnimationFrame\<close> directly: the handle is dropped
  and never reaches \<open>_rafIds\<close>. Its callback only restores a CSS transition.\<close>

definition initCarPosition :: "page \<Rightarrow> page" where
  "initCarPosition s = snd (raf RestoreCarTransition s)"

subsection \<open>Events\<close>

datatype event =
    SparkleObserver "bool list"
  | ParticlesObserver "bool list"
  | WheelsObserver "bool list"
  | SparkleResize
  | ParticlesCanvasResize
  | ParticlesWindowResize
  | WheelsWindowResize
  | RoadmapWindowResize
  | Frame nat
  | PageHide
  | BeforeUnload

definition run_callback :: "callback \<Rightarrow> page \<Rightarrow> page" where
  "run_callback cb s =
     (case cb of
        DrawSparkles \<Rightarrow> drawSparkles s
      | ParticlesLoop \<Rightarrow> loop s
      | AnimateWheels \<Rightarrow> animateWheels s
      | RestoreCarTransition \<Rightarrow> s)"

text \<open>The browser runs the outstanding request with handle \<open>h\<close>: the request leaves the
  queue, then its function runs. A handle that is not outstanding runs nothing.\<close>

definition fire :: "nat \<Rightarrow> page \<Rightarrow> page" where
  "fire h s =
     (case map_of (frame_requests s) h of
        None \<Rightarrow> s
      | Some cb \<Rightarrow> run_callback cb (cancelRaf h s))"

fun step :: "page \<Rightarrow> event \<Rightarrow> page" where
  "step s (SparkleObserver es) = foldl sparkle_entry s es"
| "step s (ParticlesObserver es) = foldl particles_entry s es"
| "step s (WheelsObserver es) = foldl wheels_entry s es"
| "step s SparkleResize = resizeCanvas s"
| "step s ParticlesCanvasResize = setSize s"
| "step s ParticlesWindowResize = setSize s"
| "step s WheelsWindowResize = wheels_resize s"
| "step s RoadmapWindowResize = initCarPosition s"
| "step s (Frame h) = fire h s"
| "step s PageHide = stopRafs (s\<lparr>running := False\<rparr>)"
| "step s BeforeUnload = stopRafs s"

definition run :: "page \<Rightarrow> event list \<Rightarrow> page" where
  "run s evs = foldl step s evs"

text \<open>The state when the DOMContentLoaded handler returns: \<open>initRoadmapModule\<close> has
  requested its frame, \<open>initParticlesModule\<close> has run \<open>init(); loop();\<close> with
  \<open>running = true\<close>; the sparkle and wheel loops wait for their observers.\<close>

definition fresh_page :: "bool \<Rightarrow> bool \<Rightarrow> page" where
  "fresh_page rm lp =
     \<lparr>reduceMotion = rm, lowPerf = lp, next_handle = 1, frame_requests = [], rafIds = [],
      sparkleActive = False, sparkleRafId = None, sparkle_shapes = 0, sparkle_frames = 0,
      running = True, rafId = None, particle_shapes = 0, particle_frames = 0,
      wheelsRafId = None, wheel_nodes = 0, wheel_frames = 0\<rparr>"

definition boot :: "bool \<Rightarrow> bool \<Rightarrow> page" where
  "boot rm lp = loop (initCarPosition (fresh_page rm lp))"

definition requests_of :: "callback \<Rightarrow> page \<Rightarrow> nat list" where
  "requests_of cb s = map fst (filter (\<lambda>r. snd r = cb) (frame_requests s))"

subsection \<open>Invariants of the frame bookkeeping\<close>

text \<open>
  \<open>fresh\<close>: handles are positive, never reused, and outstanding requests have distinct
  handles. \<open>registered\<close>: every outstanding request of the three loops is in \<open>_rafIds\<close>.
  \<open>sparkle_inv\<close>: every outstanding sparkle request is the one \<open>sparkleRafId\<close> holds,
  and a hidden or motion-reduced sparkle canvas is clear with no request outstanding.
  \<open>still_inv\<close>: under reduced motion neither canvas has ever been drawn on.
\<close>

definition fresh :: "page \<Rightarrow> bool" where
  "fresh s \<longleftrightarrow> 0 < next_handle s \<and> (\<forall>r\<in>set (frame_requests s). fst r < next_handle s)
     \<and> distinct (map fst (frame_requests s))"

definition registered :: "page \<Rightarrow> bool" where
  "registered s \<longleftrightarrow> (\<forall>r\<in>set (frame_requests s). snd r \<noteq> RestoreCarTransition \<longrightarrow> fst r \<in> set (rafIds s))"

definition sparkle_inv :: "page \<Rightarrow> bool" where
  "sparkle_inv s \<longleftrightarrow> sparkleRafId s \<noteq> Some 0
     \<and> (\<forall>r\<in>set (frame_requests s). snd r = DrawSparkles \<longrightarrow> sparkleRafId s = Some (fst r))
     \<and> ((sparkleRafId s = None \<or> \<not> sparkleActive s \<or> reduceMotion s) \<longrightarrow>
          sparkle_shapes s = 0 \<and> (\<forall>r\<in>set (frame_requests s). snd r \<noteq> DrawSparkles))"

definition still_inv :: "page \<Rightarrow> bool" where
  "still_inv s \<longleftrightarrow> (reduceMotion s \<longrightarrow>
      sparkle_frames s = 0 \<and> particle_frames s = 0 \<and> particle_shapes s = 0 \<and>
      (\<forall>r\<in>set (frame_requests s). snd r \<noteq> ParticlesLoop))"

definition page_inv :: "page \<Rightarrow> bool" where
  "page_inv s \<longleftrightarrow> fresh s \<and> registered s \<and> sparkle_inv s \<and> still_inv s"

definition loop_frames :: "page \<Rightarrow> nat \<times> nat \<times> nat" where
  "loop_frames s = (sparkle_frames s, particle_frames s, wheel_frames s)"

definition registered_requests :: "page \<Rightarrow> nat list" where
  "registered_requests s =
     map fst (filter (\<lambda>r. snd r \<noteq> RestoreCarTransition) (frame_requests s))"

text \<open>
  \<open>fired_by s evs\<close>: the requests the browser ran while the events \<open>evs\<close> happened from
  state \<open>s\<close>, each with its handle. \<open>issued_from n s\<close>: no handle below \<open>n\<close> is
  outstanding for one of the three loops, nor will one be handed out.
\<close>

fun fired_by :: "page \<Rightarrow> event list \<Rightarrow> (nat \<times> callback) list" where
  "fired_by s [] = []"
| "fired_by s (e # es) =
     (case e of
        Frame h \<Rightarrow> (case map_of (frame_requests s) h of None \<Rightarrow> [] | Some cb \<Rightarrow> [(h, cb)])
      | _ \<Rightarrow> [])
     @ fired_by (step s e) es"

definition issued_from :: "nat \<Rightarrow> page \<Rightarrow> bool" where
  "issued_from n s \<longleftrightarrow> n \<le> next_handle s \<and>
     (\<forall>r\<in>set (frame_requests s). snd r \<noteq> RestoreCarTransition \<longrightarrow> n \<le> fst r)"



text \<open>The page after pagehide, with the sparkle and wheel loops running before it.\<close>

definition torn_down :: page where
  "torn_down = step (run (boot False False) [SparkleObserver [True], WheelsObserver [True]]) PageHide"

section \<open>Hero text sequencer (initHeroModule)\<close>

text \<open>
  The two floating texts carry an inline opacity and an inline animation. A timeout set
  by \<open>animateText\<close> is kept as its delay in milliseconds, the element and the animation
  it will assign. \<open>plays\<close> counts the calls of \<open>playSequence\<close>; it is not a variable of
  the script. The video's \<open>currentTime\<close> is a real number, or \<open>None\<close> for NaN.
\<close>

datatype text_el = GotStuckEl | FixItEl

datatype animation = Unset | AnimNone | Anim string real

record text_style =
  opacity :: string
  animation :: animation

record timing =
  fadeIn :: real
  visible :: real
  fadeOut :: real

record hero =
  playing :: bool
  lastTimeChecked :: real
  gotStuck :: text_style
  fixIt :: text_style
  hero_timers :: "(real \<times> text_el \<times> animation) list"
  plays :: nat
  throttle_last :: real
  listening :: bool

definition settings_gotStuck :: timing where
  "settings_gotStuck = \<lparr>fadeIn = 0.5, visible = 1, fadeOut = 0.5\<rparr>"

definition settings_fixIt :: timing where
  "settings_fixIt = \<lparr>fadeIn = 0.5, visible = 1, fadeOut = 0.5\<rparr>"

definition CAR_ARRIVAL :: real where
  "CAR_ARRIVAL = 2"

definition CAR_LEAVE :: real where
  "CAR_LEAVE = 6"

definition hidden_style :: text_style where
  "hidden_style = \<lparr>opacity = ''0'', animation = AnimNone\<rparr>"

definition resetTexts :: "hero \<Rightarrow> hero" where
  "resetTexts s = s\<lparr>gotStuck := hidden_style, fixIt := hidden_style\<rparr>"

text \<open>\<open>animateText(el, cfg, delay, customFade)\<close> sets two timeouts and returns the total
  duration; \<open>customFade || 'fadeOutText'\<close> picks the name of the fade-out.\<close>

definition animateText :: "text_el \<Rightarrow> timing \<Rightarrow> real \<Rightarrow> string option \<Rightarrow> hero \<Rightarrow> real \<times> hero" where
  "animateText el cfg delay customFade s =
     (let fadeName = (case customFade of None \<Rightarrow> ''fadeOutText''
                       | Some n \<Rightarrow> if n = [] then ''fadeOutText'' else n)
      in (fadeIn cfg + visible cfg + fadeOut cfg,
          s\<lparr>hero_timers := hero_timers s @
               [(delay * 1000, el, Anim ''fadeInText'' (fadeIn cfg)),
                ((delay + fadeIn cfg + visible cfg) * 1000, el, Anim fadeName (fadeOut cfg))]\<rparr>))"

definition playSequence :: "hero \<Rightarrow> hero" where
  "playSequence s =
     (let s1 = resetTexts (s\<lparr>plays := Suc (plays s)\<rparr>);
          (gotStuckTime, s2) = animateText GotStuckEl settings_gotStuck 0 None s1;
          (fixItTime, s3) = animateText FixItEl settings_fixIt gotStuckTime (Some ''fadeOutRight'') s2
      in s3)"

text \<open>The body that \<open>throttle\<close> wraps.\<close>

definition onTimeUpdate :: "hero \<Rightarrow> real option \<Rightarrow> hero" where
  "onTimeUpdate s sample =
     (case sample of
        None \<Rightarrow> s
      | Some current \<Rightarrow>
          if \<bar>current - lastTimeChecked s\<bar> < 0.1 then s
          else
            (let s1 = s\<lparr>lastTimeChecked := current\<rparr>
             in if current \<ge> CAR_ARRIVAL \<and> current < CAR_LEAVE \<and> \<not> playing s1
                then playSequence (s1\<lparr>playing := True\<rparr>)
                else if current \<ge> CAR_LEAVE \<or> current < CAR_ARRIVAL
                then resetTexts (s1\<lparr>playing := False\<rparr>)
                else s1))"

text \<open>The listener: \<open>throttle(fn, 100)\<close> runs the body when at least 100 ms of
  \<open>performance.now()\<close> have passed since the last run; under reduced motion no listener
  is attached.\<close>

definition timeupdate :: "hero \<Rightarrow> real \<times> real option \<Rightarrow> hero" where
  "timeupdate s ev =
     (if \<not> listening s then s
      else if fst ev - throttle_last s \<ge> 100
      then onTimeUpdate (s\<lparr>throttle_last := fst ev\<rparr>) (snd ev)
      else s)"

definition initHeroModule :: "bool \<Rightarrow> hero" where
  "initHeroModule rm =
     \<lparr>playing = False, lastTimeChecked = - 1,
      gotStuck = \<lparr>opacity = (if rm then ''1'' else ''''), animation = Unset\<rparr>,
      fixIt = \<lparr>opacity = (if rm then ''1'' else ''''), animation = Unset\<rparr>,
      hero_timers = [], plays = 0, throttle_last = 0, listening = (\<not> rm)\<rparr>"

text \<open>The states after each sample of a sequence, and the number of times a flag goes
  from true to false along a sequence of its values.\<close>

fun feed :: "hero \<Rightarrow> real option list \<Rightarrow> hero list" where
  "feed s [] = []"
| "feed s (x # xs) = onTimeUpdate s x # feed (onTimeUpdate s x) xs"

fun falls :: "bool \<Rightarrow> bool list \<Rightarrow> nat" where
  "falls b [] = 0"
| "falls b (c # cs) = (if b \<and> \<not> c then 1 else 0) + falls c cs"

definition spec_samples :: "real option list" where
  "spec_samples = [Some 1.0, Some 2.0, Some 3.0, Some 6.0, Some 6.0, Some 1.0]"


text \<open>The state in which the sequence is playing: the page was loaded with motion
  allowed and the video has been sampled at 2.0.\<close>

definition playing_hero :: hero where
  "playing_hero = onTimeUpdate (initHeroModule False) (Some 2)"

section \<open>Roadmap waypoints, car and description typewriter (initRoadmapModule)\<close>

text \<open>
  Strings are lists of code units; a code unit of the source outside ASCII is written
  \<open>?\<close>, one per unit, so that \<open>length\<close> and \<open>substring\<close> count as the script does.
\<close>

record description =
  desc_text :: string
  link_text :: string
  link_url :: string

definition descriptions_table :: "(string \<times> description) list" where
  "descriptions_table =
     [(''about'',
       \<lparr>desc_text = ''As a Frontend Developer and Web Designer, I love turning ideas into interactive, visually engaging websites. I craft experiences that connect creativity with technology.'',
        link_text = ''Read more ???'', link_url = ''about''\<rparr>),
      (''skills'',
       \<lparr>desc_text = ''Explore the core web technologies and frameworks I work with.'',
        link_text = ''Explore skills ???'', link_url = ''skills''\<rparr>),
      (''projects'',
       \<lparr>desc_text = ''Discover some of my featured web projects and creative work.'',
        link_text = ''See projects ???'', link_url = ''projects''\<rparr>),
      (''tools'',
       \<lparr>desc_text = ''Take a look at the tools that power my design and development workflow.'',
        link_text = ''View tools ???'', link_url = ''tools''\<rparr>),
      (''contact'',
       \<lparr>desc_text = ''Let???s connect and collaborate on something amazing together.'',
        link_text = ''Contact me ???'', link_url = ''contact''\<rparr>)]"

text \<open>
  \<open>DESCRIPTIONS[labelText]\<close> is a property read on an object literal: a name that is
  not one of its five keys is looked up on \<open>Object.prototype\<close>, whose properties are
  functions and objects, all truthy and none with a \<open>text\<close>.
\<close>

definition object_prototype_names :: "string list" where
  "object_prototype_names =
     [''constructor'', ''__defineGetter__'', ''__defineSetter__'', ''hasOwnProperty'',
      ''__lookupGetter__'', ''__lookupSetter__'', ''isPrototypeOf'', ''propertyIsEnumerable'',
      ''toString'', ''valueOf'', ''__proto__'', ''toLocaleString'']"

datatype lookup = Undefined | Own description | Inherited

definition DESCRIPTIONS :: "string \<Rightarrow> lookup" where
  "DESCRIPTIONS k =
     (case map_of descriptions_table k of
        Some d \<Rightarrow> Own d
      | None \<Rightarrow> if k \<in> set object_prototype_names then Inherited else Undefined)"

text \<open>
  A pin carries the string that \<open>showDescriptionForPin\<close> looks up, that is the value of
  \<open>(pin.querySelector('.label')?.textContent || '').trim().toLowerCase()\<close>, and
  whether it has the class \<open>active\<close>. The string depends on the pin's markup alone;
  \<open>trim\<close> and \<open>toLowerCase\<close> are the engine's and are not modelled: what they return
  is taken as given, for any label.
\<close>

record pin =
  labelText :: string
  pin_active :: bool

text \<open>What the layout reads return when a handler runs: \<open>centerOfPin\<close> of each pin, the
  car's width and the road's \<open>clientWidth\<close>.\<close>

record layout =
  centerOfPin :: "nat \<Rightarrow> real"
  carWidth :: real
  roadClientWidth :: real

text \<open>A typing session is the closure of the interval callback: the looked-up \<open>data\<close>
  and the counter \<open>i\<close>.\<close>

record session =
  sess_data :: lookup
  sess_i :: nat

record roadmap =
  pinEls :: "pin list"
  activePin :: nat
  isMoving :: bool
  typingInterval :: "nat option"
  timer_next :: nat
  intervals :: "(nat \<times> session) list"
  show_timeouts :: "nat list"
  descText :: string
  descLink :: "(string \<times> string) option"
  desc_show :: bool
  car_transition :: string
  car_translateX :: int
  transitionend_listeners :: nat
  car_frame_requests :: nat

datatype js_error = TypeError

text \<open>\<open>Math.round\<close> rounds half up.\<close>

definition Math_round :: "real \<Rightarrow> int" where
  "Math_round x = \<lfloor>x + 1 / 2\<rfloor>"

definition moveCarTo :: "layout \<Rightarrow> nat \<Rightarrow> roadmap \<Rightarrow> roadmap" where
  "moveCarTo ly k s =
     (if isMoving s then s
      else
        (let maxX = max 0 (roadClientWidth ly - carWidth ly);
             target = max 0 (min (centerOfPin ly k - carWidth ly / 2) maxX)
         in s\<lparr>isMoving := True,
              car_transition := ''transform 1s cubic-bezier(.22,.8,.33,1)'',
              car_translateX := Math_round target,
              transitionend_listeners := Suc (transitionend_listeners s)\<rparr>))"

text \<open>The \<open>transitionend\<close> event runs every \<open>onEnd\<close> listener, each registered once.\<close>

definition transitionend :: "roadmap \<Rightarrow> roadmap" where
  "transitionend s =
     (if transitionend_listeners s = 0 then s
      else s\<lparr>isMoving := False, transitionend_listeners := 0\<rparr>)"

definition clearTyping :: "roadmap \<Rightarrow> roadmap" where
  "clearTyping s =
     (case typingInterval s of
        None \<Rightarrow> s
      | Some h \<Rightarrow>
          if h = 0 then s
          else s\<lparr>intervals := filter (\<lambda>p. fst p \<noteq> h) (intervals s), typingInterval := None\<rparr>)"

definition showDescriptionForPin :: "nat \<Rightarrow> roadmap \<Rightarrow> roadmap" where
  "showDescriptionForPin k s =
     (case DESCRIPTIONS (labelText (pinEls s ! k)) of
        Undefined \<Rightarrow> s
      | data \<Rightarrow>
          (let s1 = clearTyping s;
               s2 = s1\<lparr>descText := [], descLink := None, desc_show := False\<rparr>;
               s3 = s2\<lparr>show_timeouts := show_timeouts s2 @ [timer_next s2],
                       timer_next := Suc (timer_next s2)\<rparr>
           in s3\<lparr>typingInterval := Some (timer_next s3),
                 intervals := intervals s3 @ [(timer_next s3, \<lparr>sess_data = data, sess_i = 0\<rparr>)],
                 timer_next := Suc (timer_next s3)\<rparr>))"

text \<open>The interval callback of session \<open>se\<close> with timer \<open>h\<close>. When \<open>data.text\<close> is
  undefined, \<open>full.substring\<close> throws before anything is written.\<close>

definition interval_callback :: "nat \<Rightarrow> session \<Rightarrow> roadmap \<Rightarrow> js_error + roadmap" where
  "interval_callback h se s =
     (case sess_data se of
        Own d \<Rightarrow>
          (let full = desc_text d;
               i = sess_i se;
               s1 = s\<lparr>descText := take (i + 1) full, descLink := None\<rparr>;
               s2 = s1\<lparr>intervals :=
                        map (\<lambda>p. if fst p = h then (h, se\<lparr>sess_i := i + 1\<rparr>) else p) (intervals s1)\<rparr>
           in if i + 1 \<ge> length full
              then Inr ((clearTyping s2)\<lparr>descLink := Some (CHR ''#'' # link_url d, CHR '' '' # link_text d)\<rparr>)
              else Inr s2)
      | _ \<Rightarrow> Inl TypeError)"

text \<open>The timer with handle \<open>h\<close> fires, if it is an active interval. An exception thrown
  by the callback is reported by the browser and the state stays as it was.\<close>

definition interval_tick :: "nat \<Rightarrow> roadmap \<Rightarrow> roadmap" where
  "interval_tick h s =
     (case map_of (intervals s) h of
        None \<Rightarrow> s
      | Some se \<Rightarrow> (case interval_callback h se s of Inl e \<Rightarrow> s | Inr s' \<Rightarrow> s'))"

definition show_timeout :: "nat \<Rightarrow> roadmap \<Rightarrow> roadmap" where
  "show_timeout h s =
     (if h \<in> set (show_timeouts s)
      then s\<lparr>show_timeouts := filter (\<lambda>x. x \<noteq> h) (show_timeouts s), desc_show := True\<rparr>
      else s)"

text \<open>The click handler of pin \<open>k\<close>; Enter and Space on the pin call \<open>pin.click()\<close>.\<close>

definition pin_click :: "layout \<Rightarrow> nat \<Rightarrow> roadmap \<Rightarrow> roadmap" where
  "pin_click ly k s =
     (if k \<ge> length (pinEls s) then s
      else if activePin s \<noteq> k
      then
        (let ps1 = (pinEls s)[activePin s := (pinEls s ! activePin s)\<lparr>pin_active := False\<rparr>];
             ps2 = ps1[k := (ps1 ! k)\<lparr>pin_active := True\<rparr>];
             s1 = s\<lparr>pinEls := ps2, activePin := k\<rparr>
         in showDescriptionForPin k (moveCarTo ly k s1))
      else s)"

definition pin_keydown :: "layout \<Rightarrow> string \<Rightarrow> nat \<Rightarrow> roadmap \<Rightarrow> roadmap" where
  "pin_keydown ly key k s = (if key = ''Enter'' \<or> key = '' '' then pin_click ly k s else s)"

definition initCarPosition_road :: "layout \<Rightarrow> roadmap \<Rightarrow> roadmap" where
  "initCarPosition_road ly s =
     s\<lparr>car_transition := ''none'',
       car_translateX := Math_round (centerOfPin ly (activePin s) - carWidth ly / 2),
       car_frame_requests := Suc (car_frame_requests s)\<rparr>"

definition car_frame :: "roadmap \<Rightarrow> roadmap" where
  "car_frame s =
     (if car_frame_requests s = 0 then s
      else s\<lparr>car_frame_requests := car_frame_requests s - 1,
             car_transition := ''transform 1s cubic-bezier(.22,.8,.33,1)''\<rparr>)"

text \<open>\<open>initRoadmapModule\<close> on a page with the pins \<open>ps\<close>; without pins it returns early
  and the module stays off.\<close>

definition initRoadmapModule :: "layout \<Rightarrow> pin list \<Rightarrow> roadmap option" where
  "initRoadmapModule ly ps =
     (if ps = [] then None
      else Some (showDescriptionForPin 0
        (initCarPosition_road ly
           \<lparr>pinEls = ps, activePin = 0, isMoving = False, typingInterval = None,
            timer_next = 1, intervals = [], show_timeouts = [], descText = [], descLink = None,
            desc_show = False, car_transition = [], car_translateX = 0,
            transitionend_listeners = 0, car_frame_requests = 0\<rparr>)))"

datatype road_event =
    Click layout nat
  | Keydown layout string nat
  | TransitionEnd
  | IntervalFires nat
  | ShowTimeout nat
  | CarFrame
  | RoadResize layout
  | RoadPageHide

fun road_step :: "roadmap \<Rightarrow> road_event \<Rightarrow> roadmap" where
  "road_step s (Click ly k) = pin_click ly k s"
| "road_step s (Keydown ly key k) = pin_keydown ly key k s"
| "road_step s TransitionEnd = transitionend s"
| "road_step s (IntervalFires h) = interval_tick h s"
| "road_step s (ShowTimeout h) = show_timeout h s"
| "road_step s CarFrame = car_frame s"
| "road_step s (RoadResize ly) = initCarPosition_road ly s"
| "road_step s RoadPageHide = clearTyping s"

definition road_run :: "roadmap \<Rightarrow> road_event list \<Rightarrow> roadmap" where
  "road_run s evs = foldl road_step s evs"

text \<open>The text the description box shows: its own text followed by the link's.\<close>

definition displayed :: "roadmap \<Rightarrow> string" where
  "displayed s = descText s @ (case descLink s of None \<Rightarrow> [] | Some l \<Rightarrow> snd l)"

text \<open>A page with the five pins About, Skills, Projects, Tools and Contact, 100 px apart
  on a 600 px road.\<close>

definition five_pins :: "pin list" where
  "five_pins =
     [\<lparr>labelText = ''about'', pin_active = True\<rparr>,
      \<lparr>labelText = ''skills'', pin_active = False\<rparr>,
      \<lparr>labelText = ''projects'', pin_active = False\<rparr>,
      \<lparr>labelText = ''tools'', pin_active = False\<rparr>,
      \<lparr>labelText = ''contact'', pin_active = False\<rparr>]"

definition road_layout :: layout where
  "road_layout = \<lparr>centerOfPin = (\<lambda>k. 50 + 100 * real k), carWidth = 60, roadClientWidth = 600\<rparr>"

definition loaded_road :: "pin list \<Rightarrow> roadmap" where
  "loaded_road ps = the (initRoadmapModule road_layout ps)"

text \<open>Pin 1 has been clicked and the car is on its way. On a page with a sixth pin,
  whose looked-up string is \<open>l\<close>, two characters of the first description have been
  typed.\<close>

definition moving_road :: roadmap where
  "moving_road = road_run (loaded_road five_pins) [Click road_layout 1]"

definition typing_road :: "string \<Rightarrow> roadmap" where
  "typing_road l =
     road_run (loaded_road (five_pins @ [\<lparr>labelText = l, pin_active = False\<rparr>]))
       [IntervalFires 2, IntervalFires 2]"

definition about_description :: description where
  "about_description = the (map_of descriptions_table ''about'')"

text \<open>What is typed so far is a prefix of a description.\<close>

definition is_prefix :: "string \<Rightarrow> string \<Rightarrow> bool" where
  "is_prefix p t \<longleftrightarrow> take (length p) t = p"

text \<open>
  Invariants of the description box. \<open>one_session\<close>: at most one interval is active,
  and it is the one \<open>typingInterval\<close> holds. \<open>typed_so_far\<close>: while a session is active
  the box holds the first \<open>i\<close> characters of its description and no link; at any time
  the box shows a prefix of a description of the table, or a whole description with
  its link.
\<close>

definition one_session :: "roadmap \<Rightarrow> bool" where
  "one_session s \<longleftrightarrow> 0 < timer_next s \<and>
     (intervals s = [] \<or>
      (\<exists>h se. intervals s = [(h, se)] \<and> typingInterval s = Some h \<and> h \<noteq> 0))"

definition in_table :: "description \<Rightarrow> bool" where
  "in_table d \<longleftrightarrow> d \<in> set (map snd descriptions_table)"

definition shows_description :: "roadmap \<Rightarrow> description \<Rightarrow> bool" where
  "shows_description s d \<longleftrightarrow>
     (descLink s = None \<and> is_prefix (descText s) (desc_text d)) \<or>
     (descText s = desc_text d \<and> descLink s = Some (CHR ''#'' # link_url d, CHR '' '' # link_text d))"

definition typed_so_far :: "roadmap \<Rightarrow> bool" where
  "typed_so_far s \<longleftrightarrow>
     (\<forall>p\<in>set (intervals s). descLink s = None \<and>
        (case sess_data (snd p) of
           Own d \<Rightarrow> in_table d \<and> descText s = take (sess_i (snd p)) (desc_text d)
         | _ \<Rightarrow> descText s = [])) \<and>
     (\<exists>d. in_table d \<and> shows_description s d)"

definition road_inv :: "roadmap \<Rightarrow> bool" where
  "road_inv s \<longleftrightarrow> one_session s \<and> typed_so_far s"

section \<open>Skills panel: staged reveal and detail typewriter (initSkillsModule)\<close>

text \<open>
  A skill item carries its \<open>data-desc\<close> attribute and the three classes the script
  toggles. A pending \<open>setTimeout\<close> is kept with its handle, its delay in milliseconds
  and what its callback will do; \<open>TypeChar desc i\<close> is the closure of \<open>typeChar\<close>.
  \<open>reveals\<close> counts the calls of \<open>animateSkills\<close>; it is not a variable of the script.
  The page is taken to have the \<open>#skillDescription\<close> box and both brackets.
\<close>

record skill =
  data_desc :: "string option"
  cls_show :: bool
  cls_center :: bool
  cls_fade :: bool

datatype skill_timer = OpenLeft | OpenRight | StaggerItems | ShowItem nat | TypeChar string nat

record skills =
  skills_reduceMotion :: bool
  skillItems :: "skill list"
  skillDescBox :: string
  leftBracket_open :: bool
  rightBracket_open :: bool
  typingTimeout :: "nat option"
  timeout_next :: nat
  timeouts :: "(nat \<times> nat \<times> skill_timer) list"
  reveals :: nat

definition setTimeout :: "skill_timer \<Rightarrow> nat \<Rightarrow> skills \<Rightarrow> nat \<times> skills" where
  "setTimeout act delay s =
     (timeout_next s,
      s\<lparr>timeouts := timeouts s @ [(timeout_next s, delay, act)],
        timeout_next := Suc (timeout_next s)\<rparr>)"

definition clearTimeout :: "nat option \<Rightarrow> skills \<Rightarrow> skills" where
  "clearTimeout v s =
     (case v of
        None \<Rightarrow> s
      | Some h \<Rightarrow> s\<lparr>timeouts := filter (\<lambda>t. fst t \<noteq> h) (timeouts s)\<rparr>)"

definition animateSkills :: "skills \<Rightarrow> skills" where
  "animateSkills s =
     (let s1 = s\<lparr>skillItems :=
                   map (\<lambda>k. k\<lparr>cls_show := False, cls_center := False, cls_fade := False\<rparr>)
                     (skillItems s),
                 skillDescBox := [],
                 leftBracket_open := False,
                 rightBracket_open := False,
                 reveals := Suc (reveals s)\<rparr>;
          s2 = snd (setTimeout OpenLeft 100 s1);
          s3 = snd (setTimeout OpenRight 400 s2)
      in snd (setTimeout StaggerItems 1000 s3))"

text \<open>One entry of \<open>revealObserver\<close>'s callback.\<close>

definition reveal_entry :: "skills \<Rightarrow> bool \<Rightarrow> skills" where
  "reveal_entry s isIntersecting =
     (if isIntersecting
      then if \<not> skills_reduceMotion s then animateSkills s
           else s\<lparr>skillItems := map (\<lambda>k. k\<lparr>cls_show := True\<rparr>) (skillItems s),
                  leftBracket_open := True,
                  rightBracket_open := True\<rparr>
      else s)"

text \<open>\<open>typeChar\<close> with its closure variables \<open>desc\<close> and \<open>i\<close>.\<close>

definition typeChar :: "string \<Rightarrow> nat \<Rightarrow> skills \<Rightarrow> skills" where
  "typeChar desc i s =
     (if i < length desc
      then
        (let s1 = s\<lparr>skillDescBox := skillDescBox s @ [desc ! i]\<rparr>;
             (h, s2) = setTimeout (TypeChar desc (i + 1)) 40 s1
         in s2\<lparr>typingTimeout := Some h\<rparr>)
      else s)"

text \<open>The click handler of skill \<open>k\<close>; Enter and Space on the item call \<open>skill.click()\<close>.\<close>

definition skill_click :: "nat \<Rightarrow> skills \<Rightarrow> skills" where
  "skill_click k s =
     (if k \<ge> length (skillItems s) then s
      else
        (let isActive = cls_center (skillItems s ! k);
             s1 = s\<lparr>skillItems := map (\<lambda>x. x\<lparr>cls_center := False, cls_fade := False\<rparr>) (skillItems s)\<rparr>;
             s2 = clearTimeout (typingTimeout s1) s1;
             s3 = s2\<lparr>skillDescBox := []\<rparr>
         in if \<not> isActive
            then
              (let items = map (\<lambda>x. x\<lparr>cls_fade := True\<rparr>) (skillItems s3);
                   s4 = s3\<lparr>skillItems := items[k := (skillItems s3 ! k)\<lparr>cls_center := True\<rparr>]\<rparr>;
                   desc = (case data_desc (skillItems s4 ! k) of None \<Rightarrow> [] | Some t \<Rightarrow> t)
               in typeChar desc 0 s4)
            else s3))"

definition run_timer :: "skill_timer \<Rightarrow> skills \<Rightarrow> skills" where
  "run_timer act s =
     (case act of
        OpenLeft \<Rightarrow> s\<lparr>leftBracket_open := True\<rparr>
      | OpenRight \<Rightarrow> s\<lparr>rightBracket_open := True\<rparr>
      | StaggerItems \<Rightarrow>
          foldl (\<lambda>t i. snd (setTimeout (ShowItem i) (i * 200) t)) s [0 ..< length (skillItems s)]
      | ShowItem i \<Rightarrow>
          (if i < length (skillItems s)
           then s\<lparr>skillItems := (skillItems s)[i := (skillItems s ! i)\<lparr>cls_show := True\<rparr>]\<rparr>
           else s)
      | TypeChar desc i \<Rightarrow> typeChar desc i s)"

text \<open>The timeout with handle \<open>h\<close> fires, if it is still pending: it leaves the list and
  its callback runs.\<close>

definition timeout_fires :: "nat \<Rightarrow> skills \<Rightarrow> skills" where
  "timeout_fires h s =
     (case map_of (timeouts s) h of
        None \<Rightarrow> s
      | Some (delay, act) \<Rightarrow> run_timer act (s\<lparr>timeouts := filter (\<lambda>t. fst t \<noteq> h) (timeouts s)\<rparr>))"

datatype skills_event =
    RevealObserver "bool list"
  | SkillClick nat
  | SkillKeydown string nat
  | TimeoutFires nat
  | SkillsPageHide

fun skills_step :: "skills \<Rightarrow> skills_event \<Rightarrow> skills" where
  "skills_step s (RevealObserver es) = foldl reveal_entry s es"
| "skills_step s (SkillClick k) = skill_click k s"
| "skills_step s (SkillKeydown key k) =
     (if key = ''Enter'' \<or> key = '' '' then skill_click k s else s)"
| "skills_step s (TimeoutFires h) = timeout_fires h s"
| "skills_step s SkillsPageHide = clearTimeout (typingTimeout s) s"

definition skills_run :: "skills \<Rightarrow> skills_event list \<Rightarrow> skills" where
  "skills_run s evs = foldl skills_step s evs"

definition initSkillsModule :: "bool \<Rightarrow> string option list \<Rightarrow> skills" where
  "initSkillsModule rm descs =
     \<lparr>skills_reduceMotion = rm,
      skillItems = map (\<lambda>d. \<lparr>data_desc = d, cls_show = False, cls_center = False, cls_fade = False\<rparr>) descs,
      skillDescBox = [], leftBracket_open = False, rightBracket_open = False,
      typingTimeout = None, timeout_next = 1, timeouts = [], reveals = 0\<rparr>"

text \<open>A panel of two skills, motion allowed; then the same panel after its staged reveal
  has run to the end (every timeout fired).\<close>

definition two_skills :: skills where
  "two_skills = initSkillsModule False [Some ''abc'', Some ''xyz'']"

definition revealed_skills :: skills where
  "revealed_skills =
     skills_run two_skills
       [RevealObserver [True], TimeoutFires 1, TimeoutFires 2, TimeoutFires 3,
        TimeoutFires 4, TimeoutFires 5]"

text \<open>The same two skills on a page loaded under reduced motion.\<close>

definition still_skills :: skills where
  "still_skills = initSkillsModule True [Some ''abc'', Some ''xyz'']"

text \<open>
  Invariant of the detail typewriter: timeout handles are fresh and distinct, and every
  pending \<open>typeChar\<close> timeout is the one \<open>typingTimeout\<close> holds.
\<close>

fun is_typing :: "skill_timer \<Rightarrow> bool" where
  "is_typing (TypeChar desc i) = True"
| "is_typing act = False"

definition typing_timeouts :: "skills \<Rightarrow> (nat \<times> nat \<times> skill_timer) list" where
  "typing_timeouts s = filter (\<lambda>t. is_typing (snd (snd t))) (timeouts s)"

definition skills_inv :: "skills \<Rightarrow> bool" where
  "skills_inv s \<longleftrightarrow>
     (\<forall>t\<in>set (timeouts s). fst t < timeout_next s) \<and>
     distinct (map fst (timeouts s)) \<and>
     (\<forall>t\<in>set (timeouts s). is_typing (snd (snd t)) \<longrightarrow> typingTimeout s = Some (fst t))"

definition idle_typing :: "skills \<Rightarrow> bool" where
  "idle_typing s \<longleftrightarrow> (\<forall>t\<in>set (timeouts s). \<not> is_typing (snd (snd t)))"

section \<open>Contact form submit handler\<close>

text \<open>
  The handler is an async function: the part before \<open>await fetch(...)\<close> runs when the
  submit event is dispatched, the rest when the request settles. \<open>fetch_log\<close> is the
  list of request bodies handed to \<open>fetch\<close>, \<open>in_flight\<close> the number of requests
  not yet settled, \<open>clear_timeouts\<close> the delays in milliseconds of the pending timeouts
  that empty the status line. \<open>form.reset()\<close> puts every field back to its default value.
\<close>

datatype fetch_outcome = Resolved bool | Rejected

record contact_form =
  status_text :: string
  form_fields :: "string list"
  form_defaults :: "string list"
  default_prevented :: nat
  fetch_log :: "string list list"
  in_flight :: nat
  clear_timeouts :: "nat list"

definition status_sending :: string where
  "status_sending = ''Sending...''"

definition status_success :: string where
  "status_success = ''??? Message sent successfully!''"

definition status_failure :: string where
  "status_failure = ''?? Something went wrong. Try again.''"

definition status_network_error :: string where
  "status_network_error = ''????? Network error. Please try again.''"

definition submit_begin :: "contact_form \<Rightarrow> contact_form" where
  "submit_begin s =
     s\<lparr>default_prevented := Suc (default_prevented s),
       status_text := status_sending,
       fetch_log := fetch_log s @ [form_fields s],
       in_flight := Suc (in_flight s)\<rparr>"

definition submit_settle :: "fetch_outcome \<Rightarrow> contact_form \<Rightarrow> contact_form" where
  "submit_settle outcome s =
     (if in_flight s = 0 then s
      else
        (let s1 = s\<lparr>in_flight := in_flight s - 1\<rparr>
         in case outcome of
              Resolved ok \<Rightarrow>
                if ok
                then s1\<lparr>status_text := status_success,
                        form_fields := form_defaults s1,
                        clear_timeouts := clear_timeouts s1 @ [3000]\<rparr>
                else s1\<lparr>status_text := status_failure\<rparr>
            | Rejected \<Rightarrow> s1\<lparr>status_text := status_network_error\<rparr>))"

definition clear_timeout_fires :: "contact_form \<Rightarrow> contact_form" where
  "clear_timeout_fires s =
     (if clear_timeouts s = [] then s
      else s\<lparr>clear_timeouts := tl (clear_timeouts s), status_text := []\<rparr>)"

text \<open>One submit from dispatch to settlement.\<close>

definition submit :: "fetch_outcome \<Rightarrow> contact_form \<Rightarrow> contact_form" where
  "submit outcome s = submit_settle outcome (submit_begin s)"

definition filled_form :: contact_form where
  "filled_form =
     \<lparr>status_text = [], form_fields = [''Ada'', ''ada@example.org'', ''Hello''],
      form_defaults = ['''', '''', ''''], default_prevented = 0, fetch_log = [],
      in_flight = 0, clear_timeouts = []\<rparr>"

section \<open>Particle and wheel sets: initialisation on load and on resize\<close>

text \<open>
  Numbers are real; \<open>Math.random()\<close> is a sequence of values, the \<open>n\<close>-th call
  returning \<open>rnd n\<close>, and every function that draws random numbers takes the index
  of the next call and returns the index after its last one. Rounding of the
  floating-point products is not part of the model.
\<close>

record dust =
  dust_x :: real
  dust_y :: real
  dust_size :: real
  dust_speedY :: real

record car_particle =
  car_x :: real
  car_y :: real
  car_size :: real
  car_speedY :: real
  car_floatX :: real
  car_floatSpeed :: real

record wheel =
  wheel_x :: real
  wheel_y :: real
  wheel_speedX :: real
  wheel_speedY :: real
  wheel_angle :: real
  wheel_rotateSpeed :: real
  wheel_scale :: real

text \<open>\<open>setSize\<close>: \<open>canvas.width = canvas.offsetWidth || window.innerWidth\<close>, and the same
  for the height; all four are whole numbers of pixels.\<close>

definition canvas_size :: "nat \<Rightarrow> nat \<Rightarrow> nat \<Rightarrow> nat \<Rightarrow> nat \<times> nat" where
  "canvas_size offsetWidth offsetHeight innerWidth innerHeight =
     (if offsetWidth \<noteq> 0 then offsetWidth else innerWidth,
      if offsetHeight \<noteq> 0 then offsetHeight else innerHeight)"

text \<open>\<open>Dust.reset\<close> and \<open>CarParticle.reset\<close> on a canvas of the given width and height.\<close>

definition Dust_reset :: "nat \<times> nat \<Rightarrow> (nat \<Rightarrow> real) \<Rightarrow> nat \<Rightarrow> dust \<times> nat" where
  "Dust_reset canvas rnd n =
     (\<lparr>dust_x = rnd n * real (fst canvas),
       dust_y = rnd (n + 1) * real (snd canvas),
       dust_size = rnd (n + 2) * 2 + 1,
       dust_speedY = rnd (n + 3) * 0.5 + 0.15\<rparr>, n + 4)"

definition CarParticle_reset :: "nat \<times> nat \<Rightarrow> (nat \<Rightarrow> real) \<Rightarrow> nat \<Rightarrow> car_particle \<times> nat" where
  "CarParticle_reset canvas rnd n =
     (\<lparr>car_x = rnd n * real (fst canvas),
       car_y = rnd (n + 1) * real (snd canvas),
       car_size = 18 + rnd (n + 2) * 8,
       car_speedY = rnd (n + 3) * 0.35 + 0.12,
       car_floatX = rnd (n + 4) * 50,
       car_floatSpeed = rnd (n + 5) * 0.02 + 0.01\<rparr>, n + 6)"

text \<open>The two \<open>for\<close> loops of \<open>init\<close>, each pushing \<open>k\<close> new particles.\<close>

fun push_dust :: "nat \<Rightarrow> nat \<times> nat \<Rightarrow> (nat \<Rightarrow> real) \<Rightarrow> nat \<Rightarrow> dust list \<times> nat" where
  "push_dust 0 canvas rnd n = ([], n)"
| "push_dust (Suc k) canvas rnd n =
     (let (d, n1) = Dust_reset canvas rnd n;
          (ds, n2) = push_dust k canvas rnd n1
      in (d # ds, n2))"

fun push_cars :: "nat \<Rightarrow> nat \<times> nat \<Rightarrow> (nat \<Rightarrow> real) \<Rightarrow> nat \<Rightarrow> car_particle list \<times> nat" where
  "push_cars 0 canvas rnd n = ([], n)"
| "push_cars (Suc k) canvas rnd n =
     (let (c, n1) = CarParticle_reset canvas rnd n;
          (cs, n2) = push_cars k canvas rnd n1
      in (c # cs, n2))"

definition particles_init :: "bool \<Rightarrow> nat \<times> nat \<Rightarrow> (nat \<Rightarrow> real) \<Rightarrow> nat \<Rightarrow> (dust list \<times> car_particle list) \<times> nat" where
  "particles_init lp canvas rnd n =
     (let (ds, n1) = push_dust (numDust lp) canvas rnd n;
          (cs, n2) = push_cars (numCars lp) canvas rnd n1
      in ((ds, cs), n2))"

text \<open>The debounced window resize handler of the particle canvas: \<open>setSize(); init();\<close>\<close>

definition particles_resized ::
    "bool \<Rightarrow> nat \<Rightarrow> nat \<Rightarrow> nat \<Rightarrow> nat \<Rightarrow> (nat \<Rightarrow> real) \<Rightarrow> nat \<Rightarrow> (dust list \<times> car_particle list) \<times> nat" where
  "particles_resized lp offsetWidth offsetHeight innerWidth innerHeight rnd n =
     particles_init lp (canvas_size offsetWidth offsetHeight innerWidth innerHeight) rnd n"

text \<open>One turn of the loop of \<open>initWheels\<close>; \<open>rect\<close> is the size of the projects section
  as \<open>getBoundingClientRect\<close> gives it.\<close>

definition new_wheel :: "real \<times> real \<Rightarrow> (nat \<Rightarrow> real) \<Rightarrow> nat \<Rightarrow> wheel \<times> nat" where
  "new_wheel rect rnd n =
     (let startX = rnd n * max 100 (fst rect - 100);
          startY = rnd (n + 1) * max 100 (snd rect - 100)
      in (\<lparr>wheel_x = startX,
           wheel_y = startY,
           wheel_speedX = (rnd (n + 2) * 0.6 + 0.25) * (if rnd (n + 3) < 0.5 then 1 else - 1),
           wheel_speedY = (rnd (n + 4) * 0.4 + 0.15) * (if rnd (n + 5) < 0.5 then 1 else - 1),
           wheel_angle = rnd (n + 6) * 360,
           wheel_rotateSpeed = 0.15 + rnd (n + 7) * 0.35,
           wheel_scale = 0.6 + rnd (n + 8) * 0.8\<rparr>, n + 9))"

fun push_wheels :: "nat \<Rightarrow> real \<times> real \<Rightarrow> (nat \<Rightarrow> real) \<Rightarrow> nat \<Rightarrow> wheel list \<times> nat" where
  "push_wheels 0 rect rnd n = ([], n)"
| "push_wheels (Suc k) rect rnd n =
     (let (w, n1) = new_wheel rect rnd n;
          (ws, n2) = push_wheels k rect rnd n1
      in (w # ws, n2))"

definition wheels_init :: "bool \<Rightarrow> real \<times> real \<Rightarrow> (nat \<Rightarrow> real) \<Rightarrow> nat \<Rightarrow> wheel list \<times> nat" where
  "wheels_init lp rect rnd n = push_wheels (wheelCount lp) rect rnd n"

text \<open>A position lies on a surface of the given width and height.\<close>

definition inside_box :: "real \<Rightarrow> real \<Rightarrow> real \<Rightarrow> real \<Rightarrow> bool" where
  "inside_box x y w h \<longleftrightarrow> 0 \<le> x \<and> x < w \<and> 0 \<le> y \<and> y < h"

definition dust_inside :: "nat \<times> nat \<Rightarrow> dust \<Rightarrow> bool" where
  "dust_inside canvas d = inside_box (dust_x d) (dust_y d) (real (fst canvas)) (real (snd canvas))"

definition car_inside :: "nat \<times> nat \<Rightarrow> car_particle \<Rightarrow> bool" where
  "car_inside canvas c = inside_box (car_x c) (car_y c) (real (fst canvas)) (real (snd canvas))"

definition wheel_inside :: "real \<times> real \<Rightarrow> wheel \<Rightarrow> bool" where
  "wheel_inside rect w = inside_box (wheel_x w) (wheel_y w) (fst rect) (snd rect)"

text \<open>A sequence of random numbers for the examples: 0.9, 0.1, 0.5 and so on in turn.\<close>

definition sample_rnd :: "nat \<Rightarrow> real" where
  "sample_rnd n = (if n mod 3 = 0 then 0.9 else if n mod 3 = 1 then 0.1 else 0.5)"

section \<open>Properties of the frame loops\<close>

lemmas inv_defs = page_inv_def fresh_def registered_def sparkle_inv_def still_inv_def
lemmas op_defs = raf_def cancelRaf_def cancelRaf_opt_def pushRaf_def drawSparkles_def loop_def
  animateWheels_def initWheels_def initCarPosition_def resizeCanvas_def setSize_def

lemma stopRafs_eq:
  "stopRafs s = s\<lparr>rafIds := [], frame_requests := filter (\<lambda>r. fst r \<notin> set (rafIds s)) (frame_requests s)\<rparr>"
proof (induction s rule: stopRafs.induct)
  case (1 s)
  show ?case
  proof (cases "rafIds s = []")
    case True
    then show ?thesis by (subst stopRafs.simps) simp
  next
    case False
    then have ids: "rafIds s = butlast (rafIds s) @ [last (rafIds s)]" by simp
    have "set (rafIds s) = insert (last (rafIds s)) (set (butlast (rafIds s)))"
      by (subst ids) simp
    with False "1.IH" show ?thesis
      by (subst stopRafs.simps) (auto simp: cancelRaf_def intro!: filter_cong)
  qed
qed

lemma inv_drawSparkles:
  assumes "page_inv s" and "\<forall>r\<in>set (frame_requests s). snd r \<noteq> DrawSparkles"
  shows "page_inv (drawSparkles s)"
proof (cases "\<not> sparkleActive s \<or> reduceMotion s")
  case True
  with assms show ?thesis by (simp add: inv_defs drawSparkles_def)
next
  case False
  with assms show ?thesis
    by (simp add: inv_defs op_defs Let_def) (auto simp: less_SucI)
qed

lemma inv_loop: "page_inv s \<Longrightarrow> page_inv (loop s)"
  by (auto simp: inv_defs op_defs Let_def)

lemma inv_animateWheels: "page_inv s \<Longrightarrow> page_inv (animateWheels s)"
  by (auto simp: inv_defs op_defs Let_def)

lemma inv_initWheels: "page_inv s \<Longrightarrow> page_inv (initWheels s)"
  by (auto simp: inv_defs op_defs Let_def)

lemma inv_sparkle_entry: "page_inv s \<Longrightarrow> page_inv (sparkle_entry s e)"
  by (cases "sparkleRafId s") (auto simp: inv_defs op_defs Let_def sparkle_entry_def distinct_map_filter)

lemma inv_particles_entry: "page_inv s \<Longrightarrow> page_inv (particles_entry s e)"
  by (auto simp: inv_defs op_defs Let_def particles_entry_def)

lemma inv_wheels_entry: "page_inv s \<Longrightarrow> page_inv (wheels_entry s e)"
  by (cases "wheelsRafId s") (auto simp: inv_defs op_defs Let_def wheels_entry_def distinct_map_filter)

lemma inv_wheels_resize: "page_inv s \<Longrightarrow> page_inv (wheels_resize s)"
  by (cases "wheelsRafId s") (auto simp: inv_defs op_defs Let_def wheels_resize_def distinct_map_filter)

lemma inv_foldl:
  assumes "\<And>s e. page_inv s \<Longrightarrow> page_inv (f s e)"
  shows "page_inv s \<Longrightarrow> page_inv (foldl f s es)"
  by (induction es arbitrary: s) (auto intro: assms)

lemma inv_stopRafs: "page_inv s \<Longrightarrow> page_inv (stopRafs s)"
  by (subst stopRafs_eq) (auto simp: inv_defs distinct_map_filter)

lemma inv_cancelRaf: "page_inv s \<Longrightarrow> page_inv (cancelRaf h s)"
  by (simp add: inv_defs cancelRaf_def distinct_map_filter)

lemma sparkle_requests_gone:
  assumes "sparkle_inv s" and "(h, DrawSparkles) \<in> set (frame_requests s)"
  shows "\<forall>r\<in>set (frame_requests (cancelRaf h s)). snd r \<noteq> DrawSparkles"
proof
  fix r assume r: "r \<in> set (frame_requests (cancelRaf h s))"
  then have mem: "r \<in> set (frame_requests s)" and ne: "fst r \<noteq> h"
    by (simp_all add: cancelRaf_def)
  show "snd r \<noteq> DrawSparkles"
  proof
    assume d: "snd r = DrawSparkles"
    from assms(1) mem d have "sparkleRafId s = Some (fst r)"
      unfolding sparkle_inv_def by blast
    moreover from assms have "sparkleRafId s = Some h"
      unfolding sparkle_inv_def by fastforce
    ultimately show False using ne by simp
  qed
qed

lemma inv_run_callback:
  assumes "page_inv s" and "cb = DrawSparkles \<Longrightarrow> \<forall>r\<in>set (frame_requests s). snd r \<noteq> DrawSparkles"
  shows "page_inv (run_callback cb s)"
  using assms by (cases cb) (simp_all add: run_callback_def inv_drawSparkles inv_loop inv_animateWheels)

lemma inv_fire: "page_inv s \<Longrightarrow> page_inv (fire h s)"
proof -
  assume i: "page_inv s"
  show ?thesis
  proof (cases "map_of (frame_requests s) h")
    case None
    with i show ?thesis by (simp add: fire_def)
  next
    case (Some cb)
    then have mem: "(h, cb) \<in> set (frame_requests s)" by (rule map_of_SomeD)
    have "page_inv (run_callback cb (cancelRaf h s))"
    proof (rule inv_run_callback)
      show "page_inv (cancelRaf h s)" using i by (rule inv_cancelRaf)
      assume cbd: "cb = DrawSparkles"
      from i have si: "sparkle_inv s" by (simp add: page_inv_def)
      from mem cbd have "(h, DrawSparkles) \<in> set (frame_requests s)" by simp
      with si show "\<forall>r\<in>set (frame_requests (cancelRaf h s)). snd r \<noteq> DrawSparkles"
        by (rule sparkle_requests_gone)
    qed
    with Some show ?thesis by (simp add: fire_def)
  qed
qed

lemma inv_step: "page_inv s \<Longrightarrow> page_inv (step s e)"
proof (cases e)
  case (SparkleObserver es) then show "page_inv s \<Longrightarrow> ?thesis" by (simp add: inv_foldl inv_sparkle_entry)
next
  case (ParticlesObserver es) then show "page_inv s \<Longrightarrow> ?thesis" by (simp add: inv_foldl inv_particles_entry)
next
  case (WheelsObserver es) then show "page_inv s \<Longrightarrow> ?thesis" by (simp add: inv_foldl inv_wheels_entry)
next
  case PageHide
  have "page_inv s \<Longrightarrow> page_inv (s\<lparr>running := False\<rparr>)" by (auto simp: inv_defs)
  with PageHide show "page_inv s \<Longrightarrow> ?thesis" by (simp add: inv_stopRafs)
qed (auto simp: inv_stopRafs inv_fire inv_wheels_resize, auto simp: inv_defs op_defs)

lemma inv_boot: "page_inv (boot rm lp)"
  by (auto simp: inv_defs op_defs boot_def fresh_page_def Let_def)

lemma inv_run: "page_inv (run (boot rm lp) evs)"
  unfolding run_def by (rule inv_foldl) (auto intro: inv_step inv_boot)


lemma requests_of_Nil: "requests_of cb s = [] \<longleftrightarrow> (\<forall>r\<in>set (frame_requests s). snd r \<noteq> cb)"
  by (simp add: requests_of_def filter_empty_conv)

lemma registered_requests_Nil:
  "registered_requests s = [] \<longleftrightarrow> (\<forall>r\<in>set (frame_requests s). snd r = RestoreCarTransition)"
  by (simp add: registered_requests_def filter_empty_conv)

lemma stopRafs_registered:
  assumes "registered s"
  shows "rafIds (stopRafs s) = []" and "registered_requests (stopRafs s) = []"
  using assms by (auto simp: stopRafs_eq registered_requests_Nil registered_def)

lemma fire_idle:
  assumes "registered_requests s = []"
  shows "registered_requests (fire h s) = [] \<and> loop_frames (fire h s) = loop_frames s"
proof (cases "map_of (frame_requests s) h")
  case None
  with assms show ?thesis by (simp add: fire_def)
next
  case (Some cb)
  then have "(h, cb) \<in> set (frame_requests s)" by (rule map_of_SomeD)
  with assms have cb: "cb = RestoreCarTransition"
    by (auto simp: registered_requests_Nil)
  with Some assms show ?thesis
    by (auto simp: fire_def run_callback_def registered_requests_Nil cancelRaf_def loop_frames_def)
qed

lemma frames_idle:
  "registered_requests s = [] \<Longrightarrow>
   registered_requests (run s (map Frame hs)) = [] \<and> loop_frames (run s (map Frame hs)) = loop_frames s"
proof (induction hs arbitrary: s)
  case Nil
  then show ?case by (simp add: run_def)
next
  case (Cons h hs)
  from fire_idle [OF Cons.prems, of h]
  have a: "registered_requests (fire h s) = []" and b: "loop_frames (fire h s) = loop_frames s"
    by simp_all
  from Cons.IH [OF a] b show ?case by (simp add: run_def)
qed

lemma registered_run: "registered (run (boot rm lp) evs)"
  using inv_run [of rm lp evs] by (simp add: page_inv_def)

lemma issued_drawSparkles: "issued_from n s \<Longrightarrow> issued_from n (drawSparkles s)"
  by (auto simp: issued_from_def op_defs Let_def)

lemma issued_loop: "issued_from n s \<Longrightarrow> issued_from n (loop s)"
  by (auto simp: issued_from_def op_defs Let_def)

lemma issued_animateWheels: "issued_from n s \<Longrightarrow> issued_from n (animateWheels s)"
  by (auto simp: issued_from_def op_defs Let_def)

lemma issued_cancelRaf: "issued_from n s \<Longrightarrow> issued_from n (cancelRaf h s)"
  by (auto simp: issued_from_def cancelRaf_def)

lemma issued_flags:
  "issued_from n (s\<lparr>sparkleActive := b\<rparr>) = issued_from n s"
  "issued_from n (s\<lparr>running := b\<rparr>) = issued_from n s"
  by (simp_all add: issued_from_def)

lemma issued_sparkle_cancel:
  "issued_from n s \<Longrightarrow> issued_from n ((cancelRaf_opt v s)\<lparr>sparkleRafId := None, sparkle_shapes := 0\<rparr>)"
  by (cases v) (auto simp: issued_from_def cancelRaf_opt_def cancelRaf_def)

lemma issued_sparkle_entry: "issued_from n s \<Longrightarrow> issued_from n (sparkle_entry s e)"
  by (simp add: sparkle_entry_def Let_def issued_flags issued_sparkle_cancel issued_drawSparkles)

lemma issued_particles_entry: "issued_from n s \<Longrightarrow> issued_from n (particles_entry s e)"
  by (simp add: particles_entry_def Let_def issued_flags issued_loop)

lemma issued_wheels_cancel:
  "issued_from n s \<Longrightarrow> issued_from n ((cancelRaf_opt v s)\<lparr>wheelsRafId := None\<rparr>)"
  by (cases v) (auto simp: issued_from_def cancelRaf_opt_def cancelRaf_def)

lemma issued_initWheels: "issued_from n s \<Longrightarrow> issued_from n (initWheels s)"
  by (simp add: issued_from_def initWheels_def)

lemma issued_wheels_entry: "issued_from n s \<Longrightarrow> issued_from n (wheels_entry s e)"
  by (simp add: wheels_entry_def issued_animateWheels issued_initWheels issued_wheels_cancel)

lemma issued_wheels_resize: "issued_from n s \<Longrightarrow> issued_from n (wheels_resize s)"
  by (simp add: wheels_resize_def Let_def issued_animateWheels issued_initWheels issued_wheels_cancel)

lemma issued_foldl:
  assumes "\<And>s e. issued_from n s \<Longrightarrow> issued_from n (f s e)"
  shows "issued_from n s \<Longrightarrow> issued_from n (foldl f s es)"
  by (induction es arbitrary: s) (auto intro: assms)

lemma issued_stopRafs: "issued_from n s \<Longrightarrow> issued_from n (stopRafs s)"
  by (subst stopRafs_eq) (auto simp: issued_from_def)

lemma issued_fire: "issued_from n s \<Longrightarrow> issued_from n (fire h s)"
proof (cases "map_of (frame_requests s) h")
  case None
  then show "issued_from n s \<Longrightarrow> ?thesis" by (simp add: fire_def)
next
  case (Some cb)
  assume "issued_from n s"
  then have "issued_from n (cancelRaf h s)" by (rule issued_cancelRaf)
  with Some show ?thesis
    by (cases cb) (simp_all add: fire_def run_callback_def issued_drawSparkles issued_loop issued_animateWheels)
qed

lemma issued_step: "issued_from n s \<Longrightarrow> issued_from n (step s e)"
proof (cases e)
  case (SparkleObserver es)
  then show "issued_from n s \<Longrightarrow> ?thesis" by (simp add: issued_foldl issued_sparkle_entry)
next
  case (ParticlesObserver es)
  then show "issued_from n s \<Longrightarrow> ?thesis" by (simp add: issued_foldl issued_particles_entry)
next
  case (WheelsObserver es)
  then show "issued_from n s \<Longrightarrow> ?thesis" by (simp add: issued_foldl issued_wheels_entry)
next
  case PageHide
  have "issued_from n s \<Longrightarrow> issued_from n (s\<lparr>running := False\<rparr>)" by (simp add: issued_from_def)
  with PageHide show "issued_from n s \<Longrightarrow> ?thesis" by (simp add: issued_stopRafs)
next
  case RoadmapWindowResize
  then show "issued_from n s \<Longrightarrow> ?thesis"
    by (auto simp: issued_from_def initCarPosition_def raf_def)
qed (simp_all add: issued_stopRafs issued_fire issued_wheels_resize, simp_all add: issued_from_def resizeCanvas_def setSize_def)

lemma fired_by_issued:
  assumes "issued_from n s" and "(h, cb) \<in> set (fired_by s evs)" and "cb \<noteq> RestoreCarTransition"
  shows "n \<le> h"
  using assms
proof (induction evs arbitrary: s)
  case Nil
  then show ?case by simp
next
  case (Cons e evs)
  from Cons.prems(2) consider
      (now) "\<exists>k. e = Frame k \<and> map_of (frame_requests s) k = Some cb \<and> h = k"
    | (later) "(h, cb) \<in> set (fired_by (step s e) evs)"
    by (cases e) (auto split: option.splits)
  then show ?case
  proof cases
    case now
    then have "(h, cb) \<in> set (frame_requests s)" by (auto dest: map_of_SomeD)
    with Cons.prems(1,3) show ?thesis by (auto simp: issued_from_def)
  next
    case later
    from Cons.IH [OF issued_step [OF Cons.prems(1)] later Cons.prems(3)] show ?thesis .
  qed
qed

lemma teardown_issued:
  assumes "registered s" and "fresh s"
  shows "issued_from (next_handle s) (stopRafs s)"
  using assms by (auto simp: stopRafs_eq issued_from_def registered_def)

lemma fresh_run: "fresh (run (boot rm lp) evs)"
  using inv_run [of rm lp evs] by (simp add: page_inv_def)

text \<open>
  Claim C3, as amended. On page teardown (pagehide or beforeunload), from any state
  \<open>s\<close> the page can reach, \<open>stopRafs\<close> leaves the registry empty and cancels every
  outstanding request of the three loops: all of them are in the registry. What may
  remain outstanding is the roadmap's transition-restoring request, which was never
  registered. Frames fired after teardown therefore run no loop body; and whatever
  events follow the teardown, a loop body that runs belongs to a request made after
  it: no handle that was outstanding at teardown ever fires.
\<close>

theorem teardown_drains_registry:
  assumes "s = run (boot rm lp) evs"
    and "t = step s PageHide \<or> t = step s BeforeUnload"
  shows "rafIds t = [] \<and> registered_requests t = [] \<and>
         loop_frames (run t (map Frame hs)) = loop_frames t \<and>
         (\<forall>r\<in>set (fired_by t later). snd r \<noteq> RestoreCarTransition \<longrightarrow>
            next_handle s \<le> fst r \<and> fst r \<notin> fst ` set (frame_requests s))"
proof -
  have r: "registered s" unfolding assms(1) by (rule registered_run)
  have f: "fresh s" unfolding assms(1) by (rule fresh_run)
  from r have r': "registered (s\<lparr>running := False\<rparr>)" by (simp add: registered_def)
  from f have f': "fresh (s\<lparr>running := False\<rparr>)" by (simp add: fresh_def)
  have t: "t = stopRafs s \<or> t = stopRafs (s\<lparr>running := False\<rparr>)"
    using assms(2) by auto
  with stopRafs_registered [OF r] stopRafs_registered [OF r']
  have drained: "rafIds t = []" "registered_requests t = []" by auto
  from t teardown_issued [OF r f] teardown_issued [OF r' f']
  have i: "issued_from (next_handle s) t" by auto
  have old: "h < next_handle s" if "h \<in> fst ` set (frame_requests s)" for h
    using f that by (auto simp: fresh_def)
  have "\<forall>r\<in>set (fired_by t later). snd r \<noteq> RestoreCarTransition \<longrightarrow>
            next_handle s \<le> fst r \<and> fst r \<notin> fst ` set (frame_requests s)"
  proof (intro ballI impI)
    fix r assume m: "r \<in> set (fired_by t later)" and c: "snd r \<noteq> RestoreCarTransition"
    from m have "(fst r, snd r) \<in> set (fired_by t later)" by simp
    from fired_by_issued [OF i this c] have n: "next_handle s \<le> fst r" .
    with old [of "fst r"] show "next_handle s \<le> fst r \<and> fst r \<notin> fst ` set (frame_requests s)"
      by auto
  qed
  with drained frames_idle [OF drained(2), of hs] show ?thesis by simp
qed

text \<open>An instance: with the sparkle and wheel loops started, three registered requests
  are outstanding; after pagehide none is. Firing all four handles runs no loop body,
  and when the wheel observer then restarts its loop, only the new request 5 runs.\<close>

theorem teardown_drains_registry_witness:
  "registered_requests (run (boot False False) [SparkleObserver [True], WheelsObserver [True]]) = [2, 3, 4] \<and>
   rafIds torn_down = [] \<and> registered_requests torn_down = [] \<and>
   loop_frames torn_down = (1, 1, 1) \<and>
   loop_frames (run torn_down (map Frame [1, 2, 3, 4])) = loop_frames torn_down \<and>
   fired_by torn_down [Frame 2, Frame 3, Frame 4, WheelsObserver [True], Frame 5, Frame 1]
     = [(5, AnimateWheels), (1, RestoreCarTransition)] \<and>
   list_all (\<lambda>r. snd r = RestoreCarTransition \<or> 5 \<le> fst r)
     (fired_by torn_down [Frame 2, Frame 3, Frame 4, WheelsObserver [True], Frame 5, Frame 1])"
proof -
  let ?evs = "[SparkleObserver [True], WheelsObserver [True]]"
  let ?later = "[Frame 2, Frame 3, Frame 4, WheelsObserver [True], Frame 5, Frame 1]"
  have a: "registered_requests (run (boot False False) ?evs) = [2, 3, 4]"
    by code_simp
  have b: "loop_frames torn_down = (1, 1, 1)"
    by code_simp
  have c: "fired_by torn_down ?later = [(5, AnimateWheels), (1, RestoreCarTransition)]"
    by code_simp
  have n: "next_handle (run (boot False False) ?evs) = 5"
    by code_simp
  have t: "torn_down = step (run (boot False False) ?evs) PageHide \<or>
           torn_down = step (run (boot False False) ?evs) BeforeUnload"
    by (simp add: torn_down_def)
  from teardown_drains_registry [OF refl t, of "[1, 2, 3, 4]" ?later]
  have d: "rafIds torn_down = [] \<and> registered_requests torn_down = [] \<and>
           loop_frames (run torn_down (map Frame [1, 2, 3, 4])) = loop_frames torn_down"
    and e: "\<forall>r\<in>set (fired_by torn_down ?later). snd r \<noteq> RestoreCarTransition \<longrightarrow>
              next_handle (run (boot False False) ?evs) \<le> fst r"
    by blast+
  from e have "list_all (\<lambda>r. snd r = RestoreCarTransition \<or> 5 \<le> fst r) (fired_by torn_down ?later)"
    unfolding n list_all_iff by blast
  with a b c d show ?thesis by simp
qed

text \<open>
  The claim as stated fails: teardown cancels requests, it does not disconnect the
  observers or the resize listeners. After pagehide an intersecting report to the
  particle observer calls \<open>loop()\<close> again; the new request 5 is registered, fires, and
  the particle body runs once more with each frame.
\<close>

theorem observer_restarts_loop_after_teardown:
  "rafIds torn_down = [] \<and> registered_requests torn_down = [] \<and>
   particle_frames torn_down = 1 \<and>
   rafIds (run torn_down [ParticlesObserver [True]]) = [5] \<and>
   registered_requests (run torn_down [ParticlesObserver [True]]) = [5] \<and>
   fired_by torn_down [ParticlesObserver [True], Frame 5, Frame 6]
     = [(5, ParticlesLoop), (6, ParticlesLoop)] \<and>
   particle_frames (run torn_down [ParticlesObserver [True], Frame 5, Frame 6]) = 4"
  by code_simp










text \<open>
  Claim C1. The sparkle loop keeps at most one request outstanding
  (\<open>sparkle_at_most_one\<close> below), but the particle observer calls \<open>loop()\<close> and the wheel
  observer calls \<open>animateWheels()\<close> without looking at the stored handle. With motion
  allowed, one intersecting report on the freshly loaded page leaves two particle
  requests outstanding, and both keep rescheduling themselves; a resize followed by an
  intersecting report leaves two wheel requests outstanding.
\<close>

theorem unguarded_loops_duplicate_requests:
  "requests_of ParticlesLoop (boot False False) = [2] \<and>
   requests_of ParticlesLoop (run (boot False False) [ParticlesObserver [True]]) = [2, 3] \<and>
   requests_of ParticlesLoop (run (boot False False) [ParticlesObserver [True], Frame 2, Frame 3]) = [4, 5] \<and>
   requests_of AnimateWheels (run (boot False False) [WheelsWindowResize, WheelsObserver [True]]) = [3, 4]"
  by code_simp

lemma sparkle_at_most_one: "length (requests_of DrawSparkles (run (boot rm lp) evs)) \<le> 1"
proof -
  let ?s = "run (boot rm lp) evs"
  have i: "page_inv ?s" by (rule inv_run)
  then have d: "distinct (map fst (frame_requests ?s))" by (simp add: page_inv_def fresh_def)
  have d': "distinct (requests_of DrawSparkles ?s)"
    unfolding requests_of_def using d by (rule distinct_map_filter)
  show ?thesis
  proof (cases "sparkleRafId ?s")
    case None
    with i have "requests_of DrawSparkles ?s = []"
      unfolding requests_of_Nil page_inv_def sparkle_inv_def by blast
    then show ?thesis by simp
  next
    case (Some h)
    with i have "set (requests_of DrawSparkles ?s) \<subseteq> {h}"
      unfolding requests_of_def page_inv_def sparkle_inv_def by auto
    then have "card (set (requests_of DrawSparkles ?s)) \<le> card {h}"
      by (intro card_mono) simp_all
    with d' show ?thesis by (simp add: distinct_card)
  qed
qed


section \<open>Properties of the hero sequencer\<close>

lemmas hero_defs = onTimeUpdate_def playSequence_def resetTexts_def animateText_def
  CAR_ARRIVAL_def CAR_LEAVE_def settings_gotStuck_def settings_fixIt_def hidden_style_def

lemma onTimeUpdate_skip:
  "\<bar>c - lastTimeChecked s\<bar> < 0.1 \<Longrightarrow> onTimeUpdate s (Some c) = s"
  by (simp add: onTimeUpdate_def)

lemma onTimeUpdate_start:
  assumes "\<not> \<bar>c - lastTimeChecked s\<bar> < 0.1" and "CAR_ARRIVAL \<le> c" and "c < CAR_LEAVE"
    and "\<not> playing s"
  shows "playing (onTimeUpdate s (Some c))"
    and "plays (onTimeUpdate s (Some c)) = Suc (plays s)"
    and "gotStuck (onTimeUpdate s (Some c)) = hidden_style"
    and "fixIt (onTimeUpdate s (Some c)) = hidden_style"
    and "hero_timers (onTimeUpdate s (Some c)) = hero_timers s @
           [(0, GotStuckEl, Anim ''fadeInText'' 0.5), (1500, GotStuckEl, Anim ''fadeOutText'' 0.5),
            (2000, FixItEl, Anim ''fadeInText'' 0.5), (3500, FixItEl, Anim ''fadeOutRight'' 0.5)]"
  using assms by (simp_all add: hero_defs Let_def)

lemma onTimeUpdate_inside:
  assumes "\<not> \<bar>c - lastTimeChecked s\<bar> < 0.1" and "CAR_ARRIVAL \<le> c" and "c < CAR_LEAVE"
    and "playing s"
  shows "onTimeUpdate s (Some c) = s\<lparr>lastTimeChecked := c\<rparr>"
  using assms by (simp add: hero_defs Let_def)

lemma onTimeUpdate_outside:
  assumes "\<not> \<bar>c - lastTimeChecked s\<bar> < 0.1" and "CAR_LEAVE \<le> c \<or> c < CAR_ARRIVAL"
  shows "onTimeUpdate s (Some c) =
           s\<lparr>lastTimeChecked := c, playing := False, gotStuck := hidden_style, fixIt := hidden_style\<rparr>"
  using assms by (auto simp: hero_defs Let_def)

text \<open>
  Claim C4. For a sample \<open>c\<close> arriving in state \<open>s\<close>: a sample within 0.1 of the last
  processed one changes nothing; a processed sample inside \<open>[CAR_ARRIVAL, CAR_LEAVE)\<close>
  with the flag down raises the flag and calls \<open>playSequence\<close> once, which sets the four
  timeouts of the two-text sequence; inside the window with the flag up it only records
  the time; at or after \<open>CAR_LEAVE\<close>, or before \<open>CAR_ARRIVAL\<close>, it lowers the flag and
  hides both texts, starting nothing; and a processed sample inside the window after
  such a leaving sample starts the sequence again. On the samples
  1.0, 2.0, 3.0, 6.0, 6.0, 1.0 from page load the sequence starts exactly once and the
  flag falls exactly once.
\<close>

theorem hero_sequencer:
  "(\<bar>c - lastTimeChecked s\<bar> < 0.1 \<longrightarrow> onTimeUpdate s (Some c) = s) \<and>
   (\<not> \<bar>c - lastTimeChecked s\<bar> < 0.1 \<and> CAR_ARRIVAL \<le> c \<and> c < CAR_LEAVE \<and> \<not> playing s \<longrightarrow>
      playing (onTimeUpdate s (Some c)) \<and>
      plays (onTimeUpdate s (Some c)) = Suc (plays s) \<and>
      hero_timers (onTimeUpdate s (Some c)) = hero_timers s @
        [(0, GotStuckEl, Anim ''fadeInText'' 0.5), (1500, GotStuckEl, Anim ''fadeOutText'' 0.5),
         (2000, FixItEl, Anim ''fadeInText'' 0.5), (3500, FixItEl, Anim ''fadeOutRight'' 0.5)]) \<and>
   (\<not> \<bar>c - lastTimeChecked s\<bar> < 0.1 \<and> CAR_ARRIVAL \<le> c \<and> c < CAR_LEAVE \<and> playing s \<longrightarrow>
      onTimeUpdate s (Some c) = s\<lparr>lastTimeChecked := c\<rparr>) \<and>
   (\<not> \<bar>c - lastTimeChecked s\<bar> < 0.1 \<and> (CAR_LEAVE \<le> c \<or> c < CAR_ARRIVAL) \<longrightarrow>
      \<not> playing (onTimeUpdate s (Some c)) \<and>
      gotStuck (onTimeUpdate s (Some c)) = hidden_style \<and>
      fixIt (onTimeUpdate s (Some c)) = hidden_style \<and>
      plays (onTimeUpdate s (Some c)) = plays s \<and>
      hero_timers (onTimeUpdate s (Some c)) = hero_timers s) \<and>
   (\<not> \<bar>c - lastTimeChecked s\<bar> < 0.1 \<and> (CAR_LEAVE \<le> c \<or> c < CAR_ARRIVAL) \<and>
    \<not> \<bar>d - c\<bar> < 0.1 \<and> CAR_ARRIVAL \<le> d \<and> d < CAR_LEAVE \<longrightarrow>
      playing (onTimeUpdate (onTimeUpdate s (Some c)) (Some d)) \<and>
      plays (onTimeUpdate (onTimeUpdate s (Some c)) (Some d)) = Suc (plays s)) \<and>
   map plays (feed (initHeroModule False) spec_samples) = [0, 1, 1, 1, 1, 1] \<and>
   map playing (feed (initHeroModule False) spec_samples) = [False, True, True, False, False, False] \<and>
   falls False (map playing (feed (initHeroModule False) spec_samples)) = 1"
proof -
  have skip: "\<bar>c - lastTimeChecked s\<bar> < 0.1 \<longrightarrow> onTimeUpdate s (Some c) = s"
    by (simp add: onTimeUpdate_skip)
  have start: "\<not> \<bar>c - lastTimeChecked s\<bar> < 0.1 \<and> CAR_ARRIVAL \<le> c \<and> c < CAR_LEAVE \<and> \<not> playing s \<longrightarrow>
      playing (onTimeUpdate s (Some c)) \<and>
      plays (onTimeUpdate s (Some c)) = Suc (plays s) \<and>
      hero_timers (onTimeUpdate s (Some c)) = hero_timers s @
        [(0, GotStuckEl, Anim ''fadeInText'' 0.5), (1500, GotStuckEl, Anim ''fadeOutText'' 0.5),
         (2000, FixItEl, Anim ''fadeInText'' 0.5), (3500, FixItEl, Anim ''fadeOutRight'' 0.5)]"
    using onTimeUpdate_start [of c s] by blast
  have inside: "\<not> \<bar>c - lastTimeChecked s\<bar> < 0.1 \<and> CAR_ARRIVAL \<le> c \<and> c < CAR_LEAVE \<and> playing s \<longrightarrow>
      onTimeUpdate s (Some c) = s\<lparr>lastTimeChecked := c\<rparr>"
    using onTimeUpdate_inside [of c s] by blast
  have outside: "\<not> \<bar>c - lastTimeChecked s\<bar> < 0.1 \<and> (CAR_LEAVE \<le> c \<or> c < CAR_ARRIVAL) \<longrightarrow>
      \<not> playing (onTimeUpdate s (Some c)) \<and>
      gotStuck (onTimeUpdate s (Some c)) = hidden_style \<and>
      fixIt (onTimeUpdate s (Some c)) = hidden_style \<and>
      plays (onTimeUpdate s (Some c)) = plays s \<and>
      hero_timers (onTimeUpdate s (Some c)) = hero_timers s"
    using onTimeUpdate_outside [of c s] by auto
  have again: "\<not> \<bar>c - lastTimeChecked s\<bar> < 0.1 \<and> (CAR_LEAVE \<le> c \<or> c < CAR_ARRIVAL) \<and>
    \<not> \<bar>d - c\<bar> < 0.1 \<and> CAR_ARRIVAL \<le> d \<and> d < CAR_LEAVE \<longrightarrow>
      playing (onTimeUpdate (onTimeUpdate s (Some c)) (Some d)) \<and>
      plays (onTimeUpdate (onTimeUpdate s (Some c)) (Some d)) = Suc (plays s)"
  proof (intro impI, elim conjE)
    assume a: "\<not> \<bar>c - lastTimeChecked s\<bar> < 0.1" "CAR_LEAVE \<le> c \<or> c < CAR_ARRIVAL"
      and b: "\<not> \<bar>d - c\<bar> < 0.1" "CAR_ARRIVAL \<le> d" "d < CAR_LEAVE"
    let ?s = "onTimeUpdate s (Some c)"
    from onTimeUpdate_outside [OF a]
    have l: "lastTimeChecked ?s = c" and p: "\<not> playing ?s" and n: "plays ?s = plays s"
      by simp_all
    from b(1) l have b': "\<not> \<bar>d - lastTimeChecked ?s\<bar> < 0.1" by simp
    from onTimeUpdate_start(1,2) [OF b' b(2,3) p] n
    show "playing (onTimeUpdate ?s (Some d)) \<and> plays (onTimeUpdate ?s (Some d)) = Suc (plays s)"
      by simp
  qed
  have run1: "map plays (feed (initHeroModule False) spec_samples) = [0, 1, 1, 1, 1, 1]"
    by code_simp
  have run2: "map playing (feed (initHeroModule False) spec_samples) = [False, True, True, False, False, False]"
    by code_simp
  have run3: "falls False (map playing (feed (initHeroModule False) spec_samples)) = 1"
    by code_simp
  from skip start inside outside again run1 run2 run3 show ?thesis by blast
qed

text \<open>Instances of each case, around the state in which the sequence plays.\<close>

theorem hero_sequencer_witness:
  "onTimeUpdate playing_hero (Some 2.05) = playing_hero \<and>
   playing playing_hero \<and> plays playing_hero = Suc (plays (initHeroModule False)) \<and>
   onTimeUpdate playing_hero (Some 3) = playing_hero\<lparr>lastTimeChecked := 3\<rparr> \<and>
   \<not> playing (onTimeUpdate playing_hero (Some 6)) \<and>
   gotStuck (onTimeUpdate playing_hero (Some 6)) = hidden_style \<and>
   fixIt (onTimeUpdate playing_hero (Some 6)) = hidden_style \<and>
   plays (onTimeUpdate playing_hero (Some 6)) = plays playing_hero \<and>
   playing (onTimeUpdate (onTimeUpdate playing_hero (Some 6)) (Some 2)) \<and>
   plays (onTimeUpdate (onTimeUpdate playing_hero (Some 6)) (Some 2)) = Suc (plays playing_hero)"
proof -
  have l0: "lastTimeChecked (initHeroModule False) = - 1" "\<not> playing (initHeroModule False)"
    by (simp_all add: initHeroModule_def)
  have l1: "lastTimeChecked playing_hero = 2" "playing playing_hero"
    by (simp_all add: playing_hero_def initHeroModule_def hero_defs Let_def)
  from l0 hero_sequencer [of 2 "initHeroModule False" 0]
  have a: "plays playing_hero = Suc (plays (initHeroModule False))"
    by (simp add: playing_hero_def CAR_ARRIVAL_def CAR_LEAVE_def)
  from l1 hero_sequencer [of "2.05" playing_hero 0]
  have b: "onTimeUpdate playing_hero (Some 2.05) = playing_hero" by simp
  from l1 hero_sequencer [of 3 playing_hero 0]
  have c: "onTimeUpdate playing_hero (Some 3) = playing_hero\<lparr>lastTimeChecked := 3\<rparr>"
    by (simp add: CAR_ARRIVAL_def CAR_LEAVE_def)
  from l1 hero_sequencer [of 6 playing_hero 2]
  have d: "\<not> playing (onTimeUpdate playing_hero (Some 6)) \<and>
   gotStuck (onTimeUpdate playing_hero (Some 6)) = hidden_style \<and>
   fixIt (onTimeUpdate playing_hero (Some 6)) = hidden_style \<and>
   plays (onTimeUpdate playing_hero (Some 6)) = plays playing_hero \<and>
   playing (onTimeUpdate (onTimeUpdate playing_hero (Some 6)) (Some 2)) \<and>
   plays (onTimeUpdate (onTimeUpdate playing_hero (Some 6)) (Some 2)) = Suc (plays playing_hero)"
    by (simp add: CAR_ARRIVAL_def CAR_LEAVE_def)
  from a b c d l1 show ?thesis by simp
qed

section \<open>Properties of the roadmap\<close>

lemmas road_defs = pin_click_def moveCarTo_def showDescriptionForPin_def clearTyping_def

lemma showDescriptionForPin_frame:
  "activePin (showDescriptionForPin k s) = activePin s"
  "pinEls (showDescriptionForPin k s) = pinEls s"
  "isMoving (showDescriptionForPin k s) = isMoving s"
  "car_translateX (showDescriptionForPin k s) = car_translateX s"
  "car_transition (showDescriptionForPin k s) = car_transition s"
  "transitionend_listeners (showDescriptionForPin k s) = transitionend_listeners s"
  by (simp_all add: showDescriptionForPin_def clearTyping_def Let_def split: lookup.splits option.splits)

lemma clearTyping_frame:
  "timer_next (clearTyping s) = timer_next s"
  "show_timeouts (clearTyping s) = show_timeouts s"
  "descText (clearTyping s) = descText s"
  "descLink (clearTyping s) = descLink s"
  by (simp_all add: clearTyping_def split: option.splits)

lemma showDescriptionForPin_starts:
  assumes "DESCRIPTIONS (labelText (pinEls s ! k)) = Own d"
  shows "typingInterval (showDescriptionForPin k s) = Some (Suc (timer_next s))"
    and "intervals (showDescriptionForPin k s) =
           intervals (clearTyping s) @ [(Suc (timer_next s), \<lparr>sess_data = Own d, sess_i = 0\<rparr>)]"
    and "descText (showDescriptionForPin k s) = []"
    and "descLink (showDescriptionForPin k s) = None"
    and "timer_next (showDescriptionForPin k s) = Suc (Suc (timer_next s))"
  using assms by (simp_all add: showDescriptionForPin_def Let_def clearTyping_frame)

lemma moveCarTo_moving: "isMoving s \<Longrightarrow> moveCarTo ly k s = s"
  by (simp add: moveCarTo_def)

lemma pin_click_active: "k = activePin s \<Longrightarrow> pin_click ly k s = s"
  by (simp add: pin_click_def)

lemma labelText_pin_active: "labelText (p\<lparr>pin_active := b\<rparr>) = labelText p"
  by simp

lemma labelText_activated:
  "k < length ps \<Longrightarrow>
   labelText ((ps[a := (ps ! a)\<lparr>pin_active := False\<rparr>])[k := ((ps[a := (ps ! a)\<lparr>pin_active := False\<rparr>]) ! k)\<lparr>pin_active := True\<rparr>] ! k)
     = labelText (ps ! k)"
  by (cases "a = k") (simp_all add: labelText_pin_active)

lemma pin_click_moving:
  assumes "k < length (pinEls s)" and "k \<noteq> activePin s" and "isMoving s"
  shows "activePin (pin_click ly k s) = k"
    and "isMoving (pin_click ly k s)"
    and "car_translateX (pin_click ly k s) = car_translateX s"
    and "car_transition (pin_click ly k s) = car_transition s"
    and "transitionend_listeners (pin_click ly k s) = transitionend_listeners s"
    and "DESCRIPTIONS (labelText (pinEls s ! k)) = Own d \<Longrightarrow>
           typingInterval (pin_click ly k s) = Some (Suc (timer_next s)) \<and>
           descText (pin_click ly k s) = [] \<and> descLink (pin_click ly k s) = None"
proof -
  let ?ps1 = "(pinEls s)[activePin s := (pinEls s ! activePin s)\<lparr>pin_active := False\<rparr>]"
  let ?s1 = "s\<lparr>pinEls := ?ps1[k := (?ps1 ! k)\<lparr>pin_active := True\<rparr>], activePin := k\<rparr>"
  from assms have c: "pin_click ly k s = showDescriptionForPin k ?s1"
    by (simp add: pin_click_def Let_def moveCarTo_def)
  show "activePin (pin_click ly k s) = k" "isMoving (pin_click ly k s)"
    "car_translateX (pin_click ly k s) = car_translateX s"
    "car_transition (pin_click ly k s) = car_transition s"
    "transitionend_listeners (pin_click ly k s) = transitionend_listeners s"
    using assms(3) unfolding c by (simp_all add: showDescriptionForPin_frame)
  assume d: "DESCRIPTIONS (labelText (pinEls s ! k)) = Own d"
  have "labelText (pinEls ?s1 ! k) = labelText (pinEls s ! k)"
    using assms(1) labelText_activated [of k "pinEls s" "activePin s"] by simp
  with d have d1: "DESCRIPTIONS (labelText (pinEls ?s1 ! k)) = Own d" by simp
  from showDescriptionForPin_starts(1,3,4) [OF d1]
  show "typingInterval (pin_click ly k s) = Some (Suc (timer_next s)) \<and>
        descText (pin_click ly k s) = [] \<and> descLink (pin_click ly k s) = None"
    unfolding c by simp
qed

lemma pin_click_sets_active:
  "k < length (pinEls s) \<Longrightarrow> activePin (pin_click ly k s) = k"
  by (simp add: pin_click_def Let_def showDescriptionForPin_frame moveCarTo_def)

lemma pin_click_twice: "pin_click ly' k (pin_click ly k s) = pin_click ly k s"
proof (cases "k < length (pinEls s)")
  case True
  then have "activePin (pin_click ly k s) = k" by (rule pin_click_sets_active)
  then show ?thesis by (simp add: pin_click_active)
next
  case False
  then show ?thesis by (simp add: pin_click_def)
qed

text \<open>
  What the click handler does. Clicking (or pressing Enter or Space on) the pin that is
  already active changes nothing, and a second click on any pin changes nothing more.
  While the car is moving, a click on another pin leaves the car alone (same transform,
  same transition, no new listener, guard still held) but does make that pin the active
  one, and starts a new typing session when its label has a description.
\<close>

lemma select_noop_when_active:
  "(k = activePin s \<longrightarrow>
      pin_click ly k s = s \<and> pin_click ly' k (pin_click ly k s) = s \<and>
      pin_keydown ly ''Enter'' k s = s \<and> pin_keydown ly '' '' k s = s) \<and>
   pin_click ly' k (pin_click ly k s) = pin_click ly k s \<and>
   (k < length (pinEls s) \<and> k \<noteq> activePin s \<and> isMoving s \<longrightarrow>
      isMoving (pin_click ly k s) \<and>
      car_translateX (pin_click ly k s) = car_translateX s \<and>
      car_transition (pin_click ly k s) = car_transition s \<and>
      transitionend_listeners (pin_click ly k s) = transitionend_listeners s \<and>
      activePin (pin_click ly k s) = k \<and>
      (DESCRIPTIONS (labelText (pinEls s ! k)) = Own d \<longrightarrow>
         typingInterval (pin_click ly k s) = Some (Suc (timer_next s)) \<and>
         descText (pin_click ly k s) = [] \<and> descLink (pin_click ly k s) = None))"
proof -
  have a: "k = activePin s \<longrightarrow>
      pin_click ly k s = s \<and> pin_click ly' k (pin_click ly k s) = s \<and>
      pin_keydown ly ''Enter'' k s = s \<and> pin_keydown ly '' '' k s = s"
    by (simp add: pin_click_active pin_keydown_def)
  have b: "pin_click ly' k (pin_click ly k s) = pin_click ly k s"
    by (rule pin_click_twice)
  have c: "k < length (pinEls s) \<and> k \<noteq> activePin s \<and> isMoving s \<longrightarrow>
      isMoving (pin_click ly k s) \<and>
      car_translateX (pin_click ly k s) = car_translateX s \<and>
      car_transition (pin_click ly k s) = car_transition s \<and>
      transitionend_listeners (pin_click ly k s) = transitionend_listeners s \<and>
      activePin (pin_click ly k s) = k \<and>
      (DESCRIPTIONS (labelText (pinEls s ! k)) = Own d \<longrightarrow>
         typingInterval (pin_click ly k s) = Some (Suc (timer_next s)) \<and>
         descText (pin_click ly k s) = [] \<and> descLink (pin_click ly k s) = None)"
  proof (intro impI, elim conjE)
    assume h: "k < length (pinEls s)" "k \<noteq> activePin s" "isMoving s"
    from pin_click_moving(1-5) [OF h, of ly] pin_click_moving(6) [OF h, of d ly]
    show "isMoving (pin_click ly k s) \<and>
      car_translateX (pin_click ly k s) = car_translateX s \<and>
      car_transition (pin_click ly k s) = car_transition s \<and>
      transitionend_listeners (pin_click ly k s) = transitionend_listeners s \<and>
      activePin (pin_click ly k s) = k \<and>
      (DESCRIPTIONS (labelText (pinEls s ! k)) = Own d \<longrightarrow>
         typingInterval (pin_click ly k s) = Some (Suc (timer_next s)) \<and>
         descText (pin_click ly k s) = [] \<and> descLink (pin_click ly k s) = None)"
      by blast
  qed
  from a b c show ?thesis by blast
qed

lemma moving_road_facts:
  "isMoving moving_road" "activePin moving_road = 1" "length (pinEls moving_road) = 5"
  "timer_next moving_road = 5" "typingInterval moving_road = Some 4"
  "car_translateX moving_road = 120"
  "DESCRIPTIONS (labelText (pinEls moving_road ! 0)) = Own (the (map_of descriptions_table ''about''))"
  by code_simp+

text \<open>An instance: pin 1 is active and the car is on its way to it.\<close>

lemma select_noop_when_active_instance:
  "pin_click road_layout 1 moving_road = moving_road \<and>
   pin_click road_layout 1 (pin_click road_layout 1 moving_road) = moving_road \<and>
   pin_keydown road_layout ''Enter'' 1 moving_road = moving_road \<and>
   isMoving (pin_click road_layout 0 moving_road) \<and>
   car_translateX (pin_click road_layout 0 moving_road) = 120 \<and>
   activePin (pin_click road_layout 0 moving_road) = 0 \<and>
   typingInterval (pin_click road_layout 0 moving_road) = Some 6 \<and>
   descText (pin_click road_layout 0 moving_road) = []"
proof -
  note f = moving_road_facts
  from f select_noop_when_active [of 1 moving_road road_layout road_layout]
  have a: "pin_click road_layout 1 moving_road = moving_road \<and>
   pin_click road_layout 1 (pin_click road_layout 1 moving_road) = moving_road \<and>
   pin_keydown road_layout ''Enter'' 1 moving_road = moving_road" by simp
  from f select_noop_when_active [of 0 moving_road road_layout road_layout
      "the (map_of descriptions_table ''about'')"]
  have b: "isMoving (pin_click road_layout 0 moving_road) \<and>
   car_translateX (pin_click road_layout 0 moving_road) = 120 \<and>
   activePin (pin_click road_layout 0 moving_road) = 0 \<and>
   typingInterval (pin_click road_layout 0 moving_road) = Some 6 \<and>
   descText (pin_click road_layout 0 moving_road) = []" by simp
  from a b show ?thesis by simp
qed

text \<open>
  Claim C5. Selecting the pin that is already active is a no-op
  (\<open>select_noop_when_active\<close>), but selecting while a move is in progress is not: the
  \<open>isMoving\<close> guard sits in \<open>moveCarTo\<close> only, and the click handler goes on without it.
  On the loaded page the car stands under pin 0 (20 px). With the car on its way to
  pin 1 (120 px), a click on pin 0 moves the \<open>active\<close> class and \<open>activePin\<close> to
  pin 0 and replaces the typing session, while \<open>moveCarTo\<close> returns at the guard. The
  car then stays under pin 1: after the transition has ended, a further click on pin 0
  finds it active already and does nothing.
\<close>

theorem select_while_moving_changes_waypoint:
  "car_translateX (loaded_road five_pins) = 20 \<and>
   isMoving moving_road \<and> activePin moving_road = 1 \<and>
   car_translateX moving_road = 120 \<and>
   activePin (pin_click road_layout 0 moving_road) = 0 \<and>
   map pin_active (pinEls moving_road) = [False, True, False, False, False] \<and>
   map pin_active (pinEls (pin_click road_layout 0 moving_road)) = [True, False, False, False, False] \<and>
   map fst (intervals moving_road) = [4] \<and>
   map fst (intervals (pin_click road_layout 0 moving_road)) = [6] \<and>
   descText (pin_click road_layout 0 moving_road) = [] \<and>
   car_translateX (pin_click road_layout 0 moving_road) = 120 \<and>
   \<not> isMoving (road_run moving_road [Click road_layout 0, TransitionEnd]) \<and>
   activePin (road_run moving_road [Click road_layout 0, TransitionEnd, Click road_layout 0]) = 0 \<and>
   car_translateX (road_run moving_road [Click road_layout 0, TransitionEnd, Click road_layout 0]) = 120"
  by code_simp

lemma map_of_replace:
  "map_of (map (\<lambda>p. if fst p = h then (h, v) else p) xs) h =
     (case map_of xs h of None \<Rightarrow> None | Some u \<Rightarrow> Some v)"
  by (induction xs) auto

lemma map_of_removed: "map_of (filter (\<lambda>p. fst p \<noteq> h) xs) h = None"
  by (induction xs) auto

lemma interval_tick_typing:
  assumes "map_of (intervals s) h = Some se" and "sess_data se = Own d"
    and "Suc (sess_i se) < length (desc_text d)"
  shows "map_of (intervals (interval_tick h s)) h = Some (se\<lparr>sess_i := Suc (sess_i se)\<rparr>)"
    and "typingInterval (interval_tick h s) = typingInterval s"
    and "descText (interval_tick h s) = take (Suc (sess_i se)) (desc_text d)"
    and "descLink (interval_tick h s) = None"
  using assms by (simp_all add: interval_tick_def interval_callback_def Let_def map_of_replace)

lemma interval_tick_last:
  assumes "map_of (intervals s) h = Some se" and "sess_data se = Own d"
    and "Suc (sess_i se) \<ge> length (desc_text d)" and "typingInterval s = Some h" and "h \<noteq> 0"
  shows "map_of (intervals (interval_tick h s)) h = None"
    and "typingInterval (interval_tick h s) = None"
    and "descText (interval_tick h s) = desc_text d"
    and "descLink (interval_tick h s) = Some (CHR ''#'' # link_url d, CHR '' '' # link_text d)"
  using assms
  by (simp_all add: interval_tick_def interval_callback_def Let_def clearTyping_def map_of_removed)

lemma session_completes:
  assumes "map_of (intervals s) h = Some se" and "sess_data se = Own d"
    and "sess_i se < length (desc_text d)" and "typingInterval s = Some h" and "h \<noteq> 0"
    and "n = length (desc_text d) - sess_i se"
  shows "map_of (intervals ((interval_tick h ^^ n) s)) h = None \<and>
         typingInterval ((interval_tick h ^^ n) s) = None \<and>
         descText ((interval_tick h ^^ n) s) = desc_text d \<and>
         descLink ((interval_tick h ^^ n) s) = Some (CHR ''#'' # link_url d, CHR '' '' # link_text d)"
  using assms
proof (induction n arbitrary: s se)
  case 0
  then show ?case by simp
next
  case (Suc n)
  show ?case
  proof (cases "Suc (sess_i se) < length (desc_text d)")
    case True
    let ?se = "se\<lparr>sess_i := Suc (sess_i se)\<rparr>"
    have a: "map_of (intervals (interval_tick h s)) h = Some ?se"
      and b: "typingInterval (interval_tick h s) = Some h"
      using interval_tick_typing(1,2) [OF Suc.prems(1,2) True] Suc.prems(4) by simp_all
    have c: "n = length (desc_text d) - sess_i ?se" using Suc.prems(6) by simp
    from Suc.IH [OF a _ _ b Suc.prems(5) c] Suc.prems(2) True
    show ?thesis by (simp add: funpow_swap1)
  next
    case False
    then have l: "Suc (sess_i se) \<ge> length (desc_text d)" by simp
    with Suc.prems(3,6) have n: "n = 0" by simp
    from interval_tick_last [OF Suc.prems(1,2) l Suc.prems(4,5)] n
    show ?thesis by simp
  qed
qed

lemma DESCRIPTIONS_Undefined:
  "DESCRIPTIONS l = Undefined \<longleftrightarrow>
     map_of descriptions_table l = None \<and> l \<notin> set object_prototype_names"
  by (simp add: DESCRIPTIONS_def split: option.splits)

text \<open>
  What the early return does. When the trimmed, lowercased label of the pin is neither
  a key of the description table nor the name of a property inherited from
  \<open>Object.prototype\<close>, \<open>showDescriptionForPin\<close> returns the state as it found it; a typing
  session that was in flight then still runs to its end: after the remaining ticks the
  box shows the whole description followed by its link, and the timer is cleared.
\<close>

lemma unresolved_label_changes_nothing:
  assumes "map_of descriptions_table (labelText (pinEls s ! k)) = None"
    and "labelText (pinEls s ! k) \<notin> set object_prototype_names"
  shows "showDescriptionForPin k s = s \<and>
         (map_of (intervals s) h = Some se \<and> sess_data se = Own d \<and>
          sess_i se < length (desc_text d) \<and> typingInterval s = Some h \<and> h \<noteq> 0 \<longrightarrow>
            displayed ((interval_tick h ^^ (length (desc_text d) - sess_i se))
                (showDescriptionForPin k s)) = desc_text d @ CHR '' '' # link_text d \<and>
            typingInterval ((interval_tick h ^^ (length (desc_text d) - sess_i se))
                (showDescriptionForPin k s)) = None)"
proof -
  from assms have u: "DESCRIPTIONS (labelText (pinEls s ! k)) = Undefined"
    by (simp add: DESCRIPTIONS_Undefined)
  then have same: "showDescriptionForPin k s = s"
    by (simp add: showDescriptionForPin_def)
  have "map_of (intervals s) h = Some se \<and> sess_data se = Own d \<and>
          sess_i se < length (desc_text d) \<and> typingInterval s = Some h \<and> h \<noteq> 0 \<longrightarrow>
            displayed ((interval_tick h ^^ (length (desc_text d) - sess_i se)) s)
              = desc_text d @ CHR '' '' # link_text d \<and>
            typingInterval ((interval_tick h ^^ (length (desc_text d) - sess_i se)) s) = None"
  proof (intro impI, elim conjE)
    assume a: "map_of (intervals s) h = Some se" "sess_data se = Own d"
      "sess_i se < length (desc_text d)" "typingInterval s = Some h" "h \<noteq> 0"
    from session_completes [OF a refl]
    show "displayed ((interval_tick h ^^ (length (desc_text d) - sess_i se)) s)
              = desc_text d @ CHR '' '' # link_text d \<and>
          typingInterval ((interval_tick h ^^ (length (desc_text d) - sess_i se)) s) = None"
      by (simp add: displayed_def)
  qed
  with same show ?thesis by simp
qed

lemma typing_road_Blog:
  "map_of descriptions_table (labelText (pinEls (typing_road ''blog'') ! 5)) = None"
  "labelText (pinEls (typing_road ''blog'') ! 5) \<notin> set object_prototype_names"
  "map_of (intervals (typing_road ''blog'')) 2 = Some \<lparr>sess_data = Own about_description, sess_i = 2\<rparr>"
  "typingInterval (typing_road ''blog'') = Some 2"
  "displayed (typing_road ''blog'') = ''As''"
  "length (desc_text about_description) = 169"
  by code_simp+

text \<open>An instance: a sixth pin labelled Blog, two characters typed so far.\<close>

lemma unresolved_label_changes_nothing_instance:
  "displayed (typing_road ''blog'') = ''As'' \<and>
   showDescriptionForPin 5 (typing_road ''blog'') = typing_road ''blog'' \<and>
   displayed ((interval_tick 2 ^^ 167) (showDescriptionForPin 5 (typing_road ''blog'')))
     = desc_text about_description @ CHR '' '' # link_text about_description \<and>
   typingInterval ((interval_tick 2 ^^ 167) (showDescriptionForPin 5 (typing_road ''blog''))) = None"
proof -
  note f = typing_road_Blog
  let ?se = "\<lparr>sess_data = Own about_description, sess_i = 2\<rparr>"
  have n: "length (desc_text about_description) - sess_i ?se = 167"
    using f(6) by simp
  have h: "map_of (intervals (typing_road ''blog'')) 2 = Some ?se \<and>
           sess_data ?se = Own about_description \<and>
           sess_i ?se < length (desc_text about_description) \<and>
           typingInterval (typing_road ''blog'') = Some 2 \<and> (2::nat) \<noteq> 0"
    using f(3,4,6) by simp
  from unresolved_label_changes_nothing [OF f(1,2), of 2 ?se about_description] h
  have "showDescriptionForPin 5 (typing_road ''blog'') = typing_road ''blog'' \<and>
    displayed ((interval_tick 2 ^^ (length (desc_text about_description) - sess_i ?se))
        (showDescriptionForPin 5 (typing_road ''blog'')))
      = desc_text about_description @ CHR '' '' # link_text about_description \<and>
    typingInterval ((interval_tick 2 ^^ (length (desc_text about_description) - sess_i ?se))
        (showDescriptionForPin 5 (typing_road ''blog''))) = None"
    by blast
  then show ?thesis unfolding n using f(5) by blast
qed

text \<open>
  Claim C10. For a label whose lookup is undefined the reveal changes nothing
  (\<open>unresolved_label_changes_nothing\<close>). A pin labelled Constructor is another
  matter: \<open>constructor\<close> is not a key of the table, yet \<open>DESCRIPTIONS['constructor']\<close>
  is the inherited \<open>Object\<close>, which is truthy, so \<open>if (!data) return\<close> does not return.
  With two characters of the first description typed, the reveal for that pin cancels
  the running session and empties the box; the old timer no longer fires, and the new
  interval's callback throws on \<open>full.substring\<close> and types nothing.
\<close>

theorem inherited_label_clears_description:
  "labelText (pinEls (typing_road ''constructor'') ! 5) = ''constructor'' \<and>
   map_of descriptions_table (labelText (pinEls (typing_road ''constructor'') ! 5)) = None \<and>
   DESCRIPTIONS (labelText (pinEls (typing_road ''constructor'') ! 5)) = Inherited \<and>
   displayed (typing_road ''constructor'') = ''As'' \<and>
   map fst (intervals (typing_road ''constructor'')) = [2] \<and>
   typingInterval (typing_road ''constructor'') = Some 2 \<and>
   displayed (showDescriptionForPin 5 (typing_road ''constructor'')) = [] \<and>
   map fst (intervals (showDescriptionForPin 5 (typing_road ''constructor''))) = [4] \<and>
   typingInterval (showDescriptionForPin 5 (typing_road ''constructor'')) = Some 4 \<and>
   displayed (interval_tick 2 (showDescriptionForPin 5 (typing_road ''constructor''))) = [] \<and>
   displayed (interval_tick 4 (showDescriptionForPin 5 (typing_road ''constructor''))) = [] \<and>
   displayed (pin_click road_layout 5 (typing_road ''constructor'')) = [] \<and>
   map fst (intervals (pin_click road_layout 5 (typing_road ''constructor''))) = [4]"
  by code_simp

subsection \<open>One typing session on the roadmap's description box\<close>

text \<open>
  On the roadmap, in every state reachable from page load at most one interval is
  active, and the box shows a prefix of one description of the table or a whole
  description followed by its link: every write to the box goes through
  \<open>showDescriptionForPin\<close>, which clears the previous interval first.
\<close>

lemma is_prefix_take: "is_prefix (take i t) t"
  by (simp add: is_prefix_def min_def)

lemma is_prefix_Nil: "is_prefix [] t"
  by (simp add: is_prefix_def)

lemma DESCRIPTIONS_Own: "DESCRIPTIONS k = Own d \<Longrightarrow> in_table d"
proof -
  assume "DESCRIPTIONS k = Own d"
  then have "map_of descriptions_table k = Some d"
    by (simp add: DESCRIPTIONS_def split: option.splits if_splits)
  then have "(k, d) \<in> set descriptions_table" by (rule map_of_SomeD)
  then have "snd (k, d) \<in> snd ` set descriptions_table" by (rule imageI)
  then show ?thesis by (simp add: in_table_def)
qed

lemma table_nonempty: "\<exists>d. in_table d"
proof -
  have "in_table (snd (hd descriptions_table))"
    unfolding in_table_def by (simp add: descriptions_table_def)
  then show ?thesis ..
qed

lemma one_session_clearTyping:
  "one_session s \<Longrightarrow> intervals (clearTyping s) = [] \<and> timer_next (clearTyping s) = timer_next s"
  by (auto simp: one_session_def clearTyping_def split: option.splits)

lemma inv_showDescriptionForPin:
  assumes "road_inv s"
  shows "road_inv (showDescriptionForPin k s)"
proof (cases "DESCRIPTIONS (labelText (pinEls s ! k))")
  case Undefined
  with assms show ?thesis by (simp add: showDescriptionForPin_def)
next
  case (Own d)
  from assms have o: "one_session s" by (simp add: road_inv_def)
  note c = one_session_clearTyping [OF o]
  from DESCRIPTIONS_Own [OF Own] have m: "in_table d" .
  have i: "intervals (showDescriptionForPin k s) = [(Suc (timer_next s), \<lparr>sess_data = Own d, sess_i = 0\<rparr>)]"
    using showDescriptionForPin_starts(2) [OF Own] c by simp
  from o have "one_session (showDescriptionForPin k s)"
    unfolding one_session_def i using showDescriptionForPin_starts(1,5) [OF Own] by simp
  moreover have "typed_so_far (showDescriptionForPin k s)"
    unfolding typed_so_far_def i shows_description_def
    using showDescriptionForPin_starts(3,4) [OF Own] m by (auto simp: is_prefix_Nil)
  ultimately show ?thesis by (simp add: road_inv_def)
next
  case Inherited
  from assms have o: "one_session s" by (simp add: road_inv_def)
  note c = one_session_clearTyping [OF o]
  have f: "intervals (showDescriptionForPin k s) = [(Suc (timer_next s), \<lparr>sess_data = Inherited, sess_i = 0\<rparr>)]"
    "typingInterval (showDescriptionForPin k s) = Some (Suc (timer_next s))"
    "timer_next (showDescriptionForPin k s) = Suc (Suc (timer_next s))"
    "descText (showDescriptionForPin k s) = []" "descLink (showDescriptionForPin k s) = None"
    using Inherited c by (simp_all add: showDescriptionForPin_def Let_def clearTyping_frame)
  have "one_session (showDescriptionForPin k s)"
    unfolding one_session_def f by simp
  moreover have "typed_so_far (showDescriptionForPin k s)"
    unfolding typed_so_far_def f(1,4,5) shows_description_def f
    using table_nonempty by (auto simp: is_prefix_Nil)
  ultimately show ?thesis by (simp add: road_inv_def)
qed

lemma inv_frame_fields:
  assumes "intervals t = intervals s" "typingInterval t = typingInterval s"
    "timer_next t = timer_next s" "descText t = descText s" "descLink t = descLink s"
  shows "road_inv t = road_inv s"
  by (simp only: road_inv_def one_session_def typed_so_far_def shows_description_def assms)

lemma inv_moveCarTo: "road_inv (moveCarTo ly k s) = road_inv s"
  by (rule inv_frame_fields) (simp_all add: moveCarTo_def Let_def)

lemma inv_pin_click: "road_inv s \<Longrightarrow> road_inv (pin_click ly k s)"
proof -
  assume i: "road_inv s"
  have "road_inv (s\<lparr>pinEls := ps, activePin := k\<rparr>)" for ps
    using i inv_frame_fields [of "s\<lparr>pinEls := ps, activePin := k\<rparr>" s] by simp
  then show ?thesis
    by (simp add: pin_click_def Let_def i inv_showDescriptionForPin inv_moveCarTo)
qed

lemma inv_clearTyping: "road_inv s \<Longrightarrow> road_inv (clearTyping s)"
proof -
  assume i: "road_inv s"
  then have o: "one_session s" by (simp add: road_inv_def)
  note c = one_session_clearTyping [OF o]
  from o c have "one_session (clearTyping s)" by (simp add: one_session_def)
  moreover from i c have "typed_so_far (clearTyping s)"
    by (simp add: road_inv_def typed_so_far_def shows_description_def clearTyping_frame)
  ultimately show ?thesis by (simp add: road_inv_def)
qed

lemma inv_interval_tick: "road_inv s \<Longrightarrow> road_inv (interval_tick h s)"
proof (cases "map_of (intervals s) h")
  case None
  then show "road_inv s \<Longrightarrow> ?thesis" by (simp add: interval_tick_def)
next
  case (Some se)
  assume i: "road_inv s"
  then have o: "one_session s" and ty: "typed_so_far s" by (simp_all add: road_inv_def)
  from Some o have iv: "intervals s = [(h, se)]" and ti: "typingInterval s = Some h" and h0: "h \<noteq> 0"
    by (auto simp: one_session_def split: if_splits)
  show ?thesis
  proof (cases "sess_data se")
    case (Own d)
    from ty iv Own have m: "in_table d" by (simp add: typed_so_far_def)
    show ?thesis
    proof (cases "Suc (sess_i se) < length (desc_text d)")
      case True
      have f: "intervals (interval_tick h s) = [(h, se\<lparr>sess_i := Suc (sess_i se)\<rparr>)]"
        "typingInterval (interval_tick h s) = Some h"
        "descText (interval_tick h s) = take (Suc (sess_i se)) (desc_text d)"
        "descLink (interval_tick h s) = None"
        "timer_next (interval_tick h s) = timer_next s"
        using Some Own True iv ti
        by (simp_all add: interval_tick_def interval_callback_def Let_def)
      have "one_session (interval_tick h s)"
        using o h0 unfolding one_session_def f by simp
      moreover have "typed_so_far (interval_tick h s)"
        unfolding typed_so_far_def f shows_description_def
        using Own m by (auto simp: is_prefix_take)
      ultimately show ?thesis by (simp add: road_inv_def)
    next
      case False
      have f: "intervals (interval_tick h s) = []"
        "typingInterval (interval_tick h s) = None"
        "descText (interval_tick h s) = desc_text d"
        "descLink (interval_tick h s) = Some (CHR ''#'' # link_url d, CHR '' '' # link_text d)"
        "timer_next (interval_tick h s) = timer_next s"
        using Some Own False iv ti h0
        by (simp_all add: interval_tick_def interval_callback_def Let_def clearTyping_def)
      have "one_session (interval_tick h s)"
        using o unfolding one_session_def f by simp
      moreover have "typed_so_far (interval_tick h s)"
        unfolding typed_so_far_def f shows_description_def
        using m by auto
      ultimately show ?thesis by (simp add: road_inv_def)
    qed
  next
    case Undefined
    with Some i show ?thesis by (simp add: interval_tick_def interval_callback_def)
  next
    case Inherited
    with Some i show ?thesis by (simp add: interval_tick_def interval_callback_def)
  qed
qed

lemma inv_road_step: "road_inv s \<Longrightarrow> road_inv (road_step s e)"
proof (cases e)
  case (Click ly k)
  then show "road_inv s \<Longrightarrow> ?thesis" by (simp add: inv_pin_click)
next
  case (Keydown ly key k)
  then show "road_inv s \<Longrightarrow> ?thesis" by (simp add: pin_keydown_def inv_pin_click)
next
  case TransitionEnd
  have "road_inv (transitionend s) = road_inv s"
    by (rule inv_frame_fields) (simp_all add: transitionend_def)
  with TransitionEnd show "road_inv s \<Longrightarrow> ?thesis" by simp
next
  case (IntervalFires h)
  then show "road_inv s \<Longrightarrow> ?thesis" by (simp add: inv_interval_tick)
next
  case (ShowTimeout h)
  have "road_inv (show_timeout h s) = road_inv s"
    by (rule inv_frame_fields) (simp_all add: show_timeout_def)
  with ShowTimeout show "road_inv s \<Longrightarrow> ?thesis" by simp
next
  case CarFrame
  have "road_inv (car_frame s) = road_inv s"
    by (rule inv_frame_fields) (simp_all add: car_frame_def)
  with CarFrame show "road_inv s \<Longrightarrow> ?thesis" by simp
next
  case (RoadResize ly)
  have "road_inv (initCarPosition_road ly s) = road_inv s"
    by (rule inv_frame_fields) (simp_all add: initCarPosition_road_def)
  with RoadResize show "road_inv s \<Longrightarrow> ?thesis" by simp
next
  case RoadPageHide
  then show "road_inv s \<Longrightarrow> ?thesis" by (simp add: inv_clearTyping)
qed

lemma inv_initRoadmapModule:
  assumes "initRoadmapModule ly ps = Some s"
  shows "road_inv s"
proof -
  let ?s0 = "\<lparr>pinEls = ps, activePin = 0, isMoving = False, typingInterval = None,
           timer_next = 1, intervals = [], show_timeouts = [], descText = [], descLink = None,
           desc_show = False, car_transition = [], car_translateX = 0,
           transitionend_listeners = 0, car_frame_requests = 0\<rparr>"
  have "road_inv ?s0"
    using table_nonempty
    by (auto simp: road_inv_def one_session_def typed_so_far_def shows_description_def is_prefix_Nil)
  then have "road_inv (initCarPosition_road ly ?s0)"
    using inv_frame_fields [of "initCarPosition_road ly ?s0" ?s0]
    by (simp add: initCarPosition_road_def)
  then have "road_inv (showDescriptionForPin 0 (initCarPosition_road ly ?s0))"
    by (rule inv_showDescriptionForPin)
  with assms show ?thesis by (simp add: initRoadmapModule_def split: if_splits)
qed

lemma roadmap_one_session:
  assumes "initRoadmapModule ly ps = Some s0"
  shows "length (intervals (road_run s0 evs)) \<le> 1 \<and>
         (\<forall>p\<in>set (intervals (road_run s0 evs)). typingInterval (road_run s0 evs) = Some (fst p)) \<and>
         (\<exists>d. in_table d \<and>
            ((descLink (road_run s0 evs) = None \<and> is_prefix (displayed (road_run s0 evs)) (desc_text d)) \<or>
             displayed (road_run s0 evs) = desc_text d @ CHR '' '' # link_text d))"
proof -
  have "road_inv s \<Longrightarrow> road_inv (foldl road_step s evs)" for s
    by (induction evs arbitrary: s) (simp_all add: inv_road_step)
  with inv_initRoadmapModule [OF assms] have i: "road_inv (road_run s0 evs)"
    by (simp add: road_run_def)
  then have "one_session (road_run s0 evs)" and t: "typed_so_far (road_run s0 evs)"
    by (simp_all add: road_inv_def)
  then have a: "length (intervals (road_run s0 evs)) \<le> 1 \<and>
         (\<forall>p\<in>set (intervals (road_run s0 evs)). typingInterval (road_run s0 evs) = Some (fst p))"
    by (auto simp: one_session_def)
  from t obtain d where "in_table d" "shows_description (road_run s0 evs) d"
    by (auto simp: typed_so_far_def)
  then have "\<exists>d. in_table d \<and>
            ((descLink (road_run s0 evs) = None \<and> is_prefix (displayed (road_run s0 evs)) (desc_text d)) \<or>
             displayed (road_run s0 evs) = desc_text d @ CHR '' '' # link_text d)"
    by (auto simp: shows_description_def displayed_def)
  with a show ?thesis by blast
qed

section \<open>Properties of the skills panel\<close>

lemma setTimeout_fields:
  "timeouts (snd (setTimeout act delay s)) = timeouts s @ [(timeout_next s, delay, act)]"
  "timeout_next (snd (setTimeout act delay s)) = Suc (timeout_next s)"
  "reveals (snd (setTimeout act delay s)) = reveals s"
  "skillItems (snd (setTimeout act delay s)) = skillItems s"
  "skillDescBox (snd (setTimeout act delay s)) = skillDescBox s"
  "leftBracket_open (snd (setTimeout act delay s)) = leftBracket_open s"
  "rightBracket_open (snd (setTimeout act delay s)) = rightBracket_open s"
  "skills_reduceMotion (snd (setTimeout act delay s)) = skills_reduceMotion s"
  "typingTimeout (snd (setTimeout act delay s)) = typingTimeout s"
  by (simp_all add: setTimeout_def)

lemma animateSkills_fields:
  "reveals (animateSkills s) = Suc (reveals s)"
  "timeouts (animateSkills s) = timeouts s @
     [(timeout_next s, 100, OpenLeft), (Suc (timeout_next s), 400, OpenRight),
      (Suc (Suc (timeout_next s)), 1000, StaggerItems)]"
  "skillItems (animateSkills s) =
     map (\<lambda>k. k\<lparr>cls_show := False, cls_center := False, cls_fade := False\<rparr>) (skillItems s)"
  "skillDescBox (animateSkills s) = []"
  "leftBracket_open (animateSkills s) = False"
  "rightBracket_open (animateSkills s) = False"
  "skills_reduceMotion (animateSkills s) = skills_reduceMotion s"
  "typingTimeout (animateSkills s) = typingTimeout s"
  by (simp_all add: animateSkills_def Let_def setTimeout_fields)

lemma reveal_entry_reduceMotion:
  "skills_reduceMotion (reveal_entry s e) = skills_reduceMotion s"
  by (simp add: reveal_entry_def animateSkills_fields)

lemma reveal_entry_reveals:
  "reveals (reveal_entry s e) =
     reveals s + (if e \<and> \<not> skills_reduceMotion s then 1 else 0)"
  by (simp add: reveal_entry_def animateSkills_fields)

lemma observer_reveals:
  "reveals (foldl reveal_entry s es) =
     reveals s + (if skills_reduceMotion s then 0 else length (filter (\<lambda>e. e) es)) \<and>
   skills_reduceMotion (foldl reveal_entry s es) = skills_reduceMotion s"
proof (induction es arbitrary: s)
  case Nil
  then show ?case by simp
next
  case (Cons e es)
  from Cons.IH [of "reveal_entry s e"] show ?case
    by (simp add: reveal_entry_reveals reveal_entry_reduceMotion)
qed

text \<open>
  Claim C9, as amended. The observer keeps no record of a reveal: with motion allowed,
  every entry that reports the section intersecting runs \<open>animateSkills\<close> again, which
  takes the classes show, center and fade off every item, empties the detail box,
  closes both brackets and sets the three staged timeouts anew; one callback runs it
  once per intersecting entry. Under reduced motion an intersecting entry puts show on
  every item and opens both brackets at once, sets no timeout and leaves the detail
  box alone. An entry that reports non-intersecting does nothing.
\<close>

theorem reveal_replays_on_every_intersection:
  "(\<not> skills_reduceMotion s \<longrightarrow>
      reveal_entry s True = animateSkills s \<and>
      reveals (reveal_entry s True) = Suc (reveals s) \<and>
      timeouts (reveal_entry s True) = timeouts s @
        [(timeout_next s, 100, OpenLeft), (Suc (timeout_next s), 400, OpenRight),
         (Suc (Suc (timeout_next s)), 1000, StaggerItems)] \<and>
      map cls_show (skillItems (reveal_entry s True)) = replicate (length (skillItems s)) False \<and>
      map cls_center (skillItems (reveal_entry s True)) = replicate (length (skillItems s)) False \<and>
      map cls_fade (skillItems (reveal_entry s True)) = replicate (length (skillItems s)) False \<and>
      skillDescBox (reveal_entry s True) = [] \<and>
      \<not> leftBracket_open (reveal_entry s True) \<and> \<not> rightBracket_open (reveal_entry s True) \<and>
      reveals (skills_step s (RevealObserver es)) = reveals s + length (filter (\<lambda>e. e) es)) \<and>
   (skills_reduceMotion s \<longrightarrow>
      reveals (skills_step s (RevealObserver es)) = reveals s \<and>
      timeouts (reveal_entry s True) = timeouts s \<and>
      map cls_show (skillItems (reveal_entry s True)) = replicate (length (skillItems s)) True \<and>
      map cls_center (skillItems (reveal_entry s True)) = map cls_center (skillItems s) \<and>
      map cls_fade (skillItems (reveal_entry s True)) = map cls_fade (skillItems s) \<and>
      leftBracket_open (reveal_entry s True) \<and> rightBracket_open (reveal_entry s True) \<and>
      skillDescBox (reveal_entry s True) = skillDescBox s) \<and>
   reveal_entry s False = s"
proof -
  have a: "\<not> skills_reduceMotion s \<longrightarrow>
      reveal_entry s True = animateSkills s \<and>
      reveals (reveal_entry s True) = Suc (reveals s) \<and>
      timeouts (reveal_entry s True) = timeouts s @
        [(timeout_next s, 100, OpenLeft), (Suc (timeout_next s), 400, OpenRight),
         (Suc (Suc (timeout_next s)), 1000, StaggerItems)] \<and>
      map cls_show (skillItems (reveal_entry s True)) = replicate (length (skillItems s)) False \<and>
      map cls_center (skillItems (reveal_entry s True)) = replicate (length (skillItems s)) False \<and>
      map cls_fade (skillItems (reveal_entry s True)) = replicate (length (skillItems s)) False \<and>
      skillDescBox (reveal_entry s True) = [] \<and>
      \<not> leftBracket_open (reveal_entry s True) \<and> \<not> rightBracket_open (reveal_entry s True) \<and>
      reveals (skills_step s (RevealObserver es)) = reveals s + length (filter (\<lambda>e. e) es)"
    using observer_reveals [of s es]
    by (simp add: reveal_entry_def animateSkills_fields o_def map_replicate_const)
  have b: "skills_reduceMotion s \<longrightarrow>
      reveals (skills_step s (RevealObserver es)) = reveals s \<and>
      timeouts (reveal_entry s True) = timeouts s \<and>
      map cls_show (skillItems (reveal_entry s True)) = replicate (length (skillItems s)) True \<and>
      map cls_center (skillItems (reveal_entry s True)) = map cls_center (skillItems s) \<and>
      map cls_fade (skillItems (reveal_entry s True)) = map cls_fade (skillItems s) \<and>
      leftBracket_open (reveal_entry s True) \<and> rightBracket_open (reveal_entry s True) \<and>
      skillDescBox (reveal_entry s True) = skillDescBox s"
    using observer_reveals [of s es]
    by (simp add: reveal_entry_def o_def map_replicate_const)
  have c: "reveal_entry s False = s" by (simp add: reveal_entry_def)
  from a b c show ?thesis by blast
qed

lemma revealed_skills_facts:
  "\<not> skills_reduceMotion revealed_skills" "reveals revealed_skills = 1"
  "timeouts revealed_skills = []" "timeout_next revealed_skills = 6"
  "map cls_show (skillItems revealed_skills) = [True, True]"
  "length (skillItems revealed_skills) = 2"
  by code_simp+

lemma still_skills_facts:
  "skills_reduceMotion still_skills" "reveals still_skills = 0"
  "timeouts still_skills = []" "length (skillItems still_skills) = 2"
  "map cls_show (skillItems still_skills) = [False, False]"
  "\<not> leftBracket_open still_skills" "\<not> rightBracket_open still_skills"
  by code_simp+

text \<open>Two instances: the panel after its first reveal has run to the end, and a freshly
  loaded panel under reduced motion.\<close>

theorem reveal_replays_on_every_intersection_witness:
  "reveals revealed_skills = 1 \<and>
   map cls_show (skillItems revealed_skills) = [True, True] \<and>
   reveals (reveal_entry revealed_skills True) = 2 \<and>
   timeouts (reveal_entry revealed_skills True) =
     [(6, 100, OpenLeft), (7, 400, OpenRight), (8, 1000, StaggerItems)] \<and>
   map cls_show (skillItems (reveal_entry revealed_skills True)) = [False, False] \<and>
   map cls_center (skillItems (reveal_entry revealed_skills True)) = [False, False] \<and>
   map cls_fade (skillItems (reveal_entry revealed_skills True)) = [False, False] \<and>
   \<not> leftBracket_open (reveal_entry revealed_skills True) \<and>
   \<not> rightBracket_open (reveal_entry revealed_skills True) \<and>
   reveals (skills_step revealed_skills (RevealObserver [True, False, True])) = 3 \<and>
   \<not> leftBracket_open still_skills \<and> \<not> rightBracket_open still_skills \<and>
   map cls_show (skillItems still_skills) = [False, False] \<and>
   reveals (skills_step still_skills (RevealObserver [True, True])) = 0 \<and>
   timeouts (reveal_entry still_skills True) = [] \<and>
   map cls_show (skillItems (reveal_entry still_skills True)) = [True, True] \<and>
   leftBracket_open (reveal_entry still_skills True) \<and>
   rightBracket_open (reveal_entry still_skills True)"
proof -
  note f = revealed_skills_facts
  note g = still_skills_facts
  have r: "replicate 2 False = [False, False]" "replicate 2 True = [True, True]"
    by (simp_all add: numeral_2_eq_2)
  from f(1) reveal_replays_on_every_intersection [of revealed_skills "[True, False, True]"]
  have "reveals (reveal_entry revealed_skills True) = Suc (reveals revealed_skills)"
    and "timeouts (reveal_entry revealed_skills True) = timeouts revealed_skills @
          [(timeout_next revealed_skills, 100, OpenLeft),
           (Suc (timeout_next revealed_skills), 400, OpenRight),
           (Suc (Suc (timeout_next revealed_skills)), 1000, StaggerItems)]"
    and "map cls_show (skillItems (reveal_entry revealed_skills True))
          = replicate (length (skillItems revealed_skills)) False"
    and "map cls_center (skillItems (reveal_entry revealed_skills True))
          = replicate (length (skillItems revealed_skills)) False"
    and "map cls_fade (skillItems (reveal_entry revealed_skills True))
          = replicate (length (skillItems revealed_skills)) False"
    and "\<not> leftBracket_open (reveal_entry revealed_skills True)"
    and "\<not> rightBracket_open (reveal_entry revealed_skills True)"
    and "reveals (skills_step revealed_skills (RevealObserver [True, False, True]))
          = reveals revealed_skills + length (filter (\<lambda>e. e) [True, False, True])"
    by blast+
  with f r have moving: "reveals revealed_skills = 1 \<and>
   map cls_show (skillItems revealed_skills) = [True, True] \<and>
   reveals (reveal_entry revealed_skills True) = 2 \<and>
   timeouts (reveal_entry revealed_skills True) =
     [(6, 100, OpenLeft), (7, 400, OpenRight), (8, 1000, StaggerItems)] \<and>
   map cls_show (skillItems (reveal_entry revealed_skills True)) = [False, False] \<and>
   map cls_center (skillItems (reveal_entry revealed_skills True)) = [False, False] \<and>
   map cls_fade (skillItems (reveal_entry revealed_skills True)) = [False, False] \<and>
   \<not> leftBracket_open (reveal_entry revealed_skills True) \<and>
   \<not> rightBracket_open (reveal_entry revealed_skills True) \<and>
   reveals (skills_step revealed_skills (RevealObserver [True, False, True])) = 3"
    by simp
  from g(1) reveal_replays_on_every_intersection [of still_skills "[True, True]"]
  have "reveals (skills_step still_skills (RevealObserver [True, True])) = reveals still_skills"
    and "timeouts (reveal_entry still_skills True) = timeouts still_skills"
    and "map cls_show (skillItems (reveal_entry still_skills True))
          = replicate (length (skillItems still_skills)) True"
    and "leftBracket_open (reveal_entry still_skills True)"
    and "rightBracket_open (reveal_entry still_skills True)"
    by blast+
  with g r have still: "\<not> leftBracket_open still_skills \<and> \<not> rightBracket_open still_skills \<and>
   map cls_show (skillItems still_skills) = [False, False] \<and>
   reveals (skills_step still_skills (RevealObserver [True, True])) = 0 \<and>
   timeouts (reveal_entry still_skills True) = [] \<and>
   map cls_show (skillItems (reveal_entry still_skills True)) = [True, True] \<and>
   leftBracket_open (reveal_entry still_skills True) \<and>
   rightBracket_open (reveal_entry still_skills True)"
    by simp
  from moving still show ?thesis by blast
qed

text \<open>
  The claim as stated fails: after the first reveal has finished, leaving and
  re-entering the viewport runs the staged animation a second time, hiding the items
  that were shown.
\<close>

theorem reveal_runs_again_on_reentry:
  "reveals revealed_skills = 1 \<and>
   map cls_show (skillItems revealed_skills) = [True, True] \<and>
   reveals (skills_run revealed_skills [RevealObserver [False], RevealObserver [True]]) = 2 \<and>
   map cls_show (skillItems (skills_run revealed_skills [RevealObserver [False], RevealObserver [True]]))
     = [False, False] \<and>
   map (\<lambda>t. snd (snd t)) (timeouts (skills_run revealed_skills [RevealObserver [False], RevealObserver [True]]))
     = [OpenLeft, OpenRight, StaggerItems] \<and>
   leftBracket_open revealed_skills \<and> rightBracket_open revealed_skills \<and>
   \<not> leftBracket_open (skills_run revealed_skills [RevealObserver [False], RevealObserver [True]]) \<and>
   \<not> rightBracket_open (skills_run revealed_skills [RevealObserver [False], RevealObserver [True]])"
  by code_simp

subsection \<open>One typing session on the skills detail box\<close>

text \<open>
  In every state reachable from page load at most one \<open>typeChar\<close> timeout is pending:
  a click clears the previous one before it starts typing.
\<close>

lemma skills_inv_setTimeout:
  "skills_inv s \<Longrightarrow> \<not> is_typing act \<Longrightarrow> skills_inv (snd (setTimeout act delay s))"
  by (auto simp: skills_inv_def setTimeout_def)

lemma skills_inv_frame:
  assumes "timeouts t = timeouts s" "timeout_next t = timeout_next s" "typingTimeout t = typingTimeout s"
  shows "skills_inv t = skills_inv s"
  by (simp only: skills_inv_def assms)

lemma skills_inv_animateSkills: "skills_inv s \<Longrightarrow> skills_inv (animateSkills s)"
proof -
  assume i: "skills_inv s"
  let ?s1 = "s\<lparr>skillItems :=
                   map (\<lambda>k. k\<lparr>cls_show := False, cls_center := False, cls_fade := False\<rparr>)
                     (skillItems s),
                 skillDescBox := [],
                 leftBracket_open := False,
                 rightBracket_open := False,
                 reveals := Suc (reveals s)\<rparr>"
  have "skills_inv ?s1" using i skills_inv_frame [of ?s1 s] by simp
  then show ?thesis
    by (simp add: animateSkills_def Let_def skills_inv_setTimeout)
qed

lemma skills_inv_reveal_entry: "skills_inv s \<Longrightarrow> skills_inv (reveal_entry s e)"
proof -
  assume i: "skills_inv s"
  have "skills_inv (s\<lparr>skillItems := xs, leftBracket_open := True, rightBracket_open := True\<rparr>)" for xs
    using i skills_inv_frame [of "s\<lparr>skillItems := xs, leftBracket_open := True, rightBracket_open := True\<rparr>" s]
    by simp
  with i show ?thesis by (simp add: reveal_entry_def skills_inv_animateSkills)
qed

lemma skills_inv_typeChar:
  assumes "skills_inv s" and "idle_typing s"
  shows "skills_inv (typeChar desc i s)"
  using assms by (auto simp: skills_inv_def idle_typing_def typeChar_def setTimeout_def Let_def)

lemma skills_inv_clear:
  assumes "skills_inv s"
  shows "skills_inv (clearTimeout (typingTimeout s) s) \<and> idle_typing (clearTimeout (typingTimeout s) s)"
  using assms
  by (cases "typingTimeout s")
     (auto simp: skills_inv_def idle_typing_def clearTimeout_def distinct_map_filter)

lemma clearTimeout_fields:
  "typingTimeout (clearTimeout v s) = typingTimeout s"
  "timeout_next (clearTimeout v s) = timeout_next s"
  by (simp_all add: clearTimeout_def split: option.splits)

lemma skills_idle_frame:
  assumes "skills_inv s \<and> idle_typing s"
    and "timeouts t = timeouts s" "timeout_next t = timeout_next s" "typingTimeout t = typingTimeout s"
  shows "skills_inv t \<and> idle_typing t"
  using assms(1) unfolding skills_inv_def idle_typing_def assms(2-4) by blast

lemma skills_inv_skill_click: "skills_inv s \<Longrightarrow> skills_inv (skill_click k s)"
proof (cases "k \<ge> length (skillItems s)")
  case True
  then show "skills_inv s \<Longrightarrow> ?thesis" by (simp add: skill_click_def)
next
  case False
  assume i: "skills_inv s"
  let ?s1 = "s\<lparr>skillItems := map (\<lambda>x. x\<lparr>cls_center := False, cls_fade := False\<rparr>) (skillItems s)\<rparr>"
  let ?s2 = "clearTimeout (typingTimeout ?s1) ?s1"
  let ?s3 = "?s2\<lparr>skillDescBox := []\<rparr>"
  let ?items = "map (\<lambda>x. x\<lparr>cls_fade := True\<rparr>) (skillItems ?s3)"
  let ?s4 = "?s3\<lparr>skillItems := ?items[k := (skillItems ?s3 ! k)\<lparr>cls_center := True\<rparr>]\<rparr>"
  let ?d = "case data_desc (skillItems ?s4 ! k) of None \<Rightarrow> [] | Some t \<Rightarrow> t"
  have i1: "skills_inv ?s1" using i skills_inv_frame [of ?s1 s] by simp
  note c = skills_inv_clear [OF i1]
  have i3: "skills_inv ?s3 \<and> idle_typing ?s3"
    by (rule skills_idle_frame [OF c]) simp_all
  have i4: "skills_inv ?s4 \<and> idle_typing ?s4"
    by (rule skills_idle_frame [OF c]) simp_all
  show ?thesis
  proof (cases "cls_center (skillItems s ! k)")
    case True
    have "skill_click k s = ?s3"
      unfolding skill_click_def Let_def using False True by simp
    with i3 show ?thesis by simp
  next
    case inactive: False
    have "skill_click k s = typeChar ?d 0 ?s4"
      unfolding skill_click_def Let_def using False inactive by simp
    with i4 show ?thesis by (simp only: skills_inv_typeChar)
  qed
qed

lemma skills_inv_stagger:
  "skills_inv s \<Longrightarrow> skills_inv (foldl (\<lambda>t i. snd (setTimeout (ShowItem i) (i * 200) t)) s ks)"
  by (induction ks arbitrary: s) (simp_all add: skills_inv_setTimeout)

lemma skills_inv_timeout_fires: "skills_inv s \<Longrightarrow> skills_inv (timeout_fires h s)"
proof (cases "map_of (timeouts s) h")
  case None
  then show "skills_inv s \<Longrightarrow> ?thesis" by (simp add: timeout_fires_def)
next
  case (Some da)
  assume i: "skills_inv s"
  obtain delay act where da: "da = (delay, act)" by (cases da)
  let ?s' = "s\<lparr>timeouts := filter (\<lambda>t. fst t \<noteq> h) (timeouts s)\<rparr>"
  from Some da have mem: "(h, delay, act) \<in> set (timeouts s)" by (auto dest: map_of_SomeD)
  have i': "skills_inv ?s'" using i by (auto simp: skills_inv_def distinct_map_filter)
  have idle: "is_typing act \<Longrightarrow> idle_typing ?s'"
  proof -
    assume ty: "is_typing act"
    with i mem have "typingTimeout s = Some h" by (fastforce simp: skills_inv_def)
    with i show ?thesis by (fastforce simp: skills_inv_def idle_typing_def)
  qed
  have "skills_inv (run_timer act ?s')"
  proof (cases act)
    case OpenLeft
    with i' skills_inv_frame [of "?s'\<lparr>leftBracket_open := True\<rparr>" ?s'] show ?thesis
      by (simp add: run_timer_def)
  next
    case OpenRight
    with i' skills_inv_frame [of "?s'\<lparr>rightBracket_open := True\<rparr>" ?s'] show ?thesis
      by (simp add: run_timer_def)
  next
    case StaggerItems
    with i' skills_inv_stagger [of ?s'] show ?thesis by (simp add: run_timer_def)
  next
    case (ShowItem j)
    have "skills_inv (?s'\<lparr>skillItems := xs\<rparr>)" for xs
      using i' skills_inv_frame [of "?s'\<lparr>skillItems := xs\<rparr>" ?s'] by simp
    with ShowItem i' show ?thesis by (simp add: run_timer_def)
  next
    case (TypeChar desc j)
    with idle have "idle_typing ?s'" by simp
    with TypeChar i' show ?thesis by (simp add: run_timer_def skills_inv_typeChar)
  qed
  with Some da show ?thesis by (simp add: timeout_fires_def)
qed

lemma skills_inv_step: "skills_inv s \<Longrightarrow> skills_inv (skills_step s e)"
proof (cases e)
  case (RevealObserver es)
  have "skills_inv t \<Longrightarrow> skills_inv (foldl reveal_entry t es)" for t
    by (induction es arbitrary: t) (simp_all add: skills_inv_reveal_entry)
  with RevealObserver show "skills_inv s \<Longrightarrow> ?thesis" by simp
next
  case (SkillClick k)
  then show "skills_inv s \<Longrightarrow> ?thesis" by (simp add: skills_inv_skill_click)
next
  case (SkillKeydown key k)
  then show "skills_inv s \<Longrightarrow> ?thesis" by (simp add: skills_inv_skill_click)
next
  case (TimeoutFires h)
  then show "skills_inv s \<Longrightarrow> ?thesis" by (simp add: skills_inv_timeout_fires)
next
  case SkillsPageHide
  then show "skills_inv s \<Longrightarrow> ?thesis" using skills_inv_clear [of s] by simp
qed

lemma skills_one_typing_timeout:
  "length (typing_timeouts (skills_run (initSkillsModule rm descs) evs)) \<le> 1"
proof -
  let ?s = "skills_run (initSkillsModule rm descs) evs"
  have "skills_inv (initSkillsModule rm descs)"
    by (simp add: skills_inv_def initSkillsModule_def)
  moreover have "skills_inv t \<Longrightarrow> skills_inv (foldl skills_step t evs)" for t
    by (induction evs arbitrary: t) (simp_all add: skills_inv_step)
  ultimately have i: "skills_inv ?s" by (simp add: skills_run_def)
  then have d: "distinct (map fst (typing_timeouts ?s))"
    unfolding typing_timeouts_def skills_inv_def by (simp add: distinct_map_filter)
  show ?thesis
  proof (cases "typingTimeout ?s")
    case None
    with i have "typing_timeouts ?s = []"
      unfolding typing_timeouts_def skills_inv_def by (auto simp: filter_empty_conv)
    then show ?thesis by simp
  next
    case (Some h)
    with i have "set (map fst (typing_timeouts ?s)) \<subseteq> {h}"
      unfolding typing_timeouts_def skills_inv_def by auto
    then have "card (set (map fst (typing_timeouts ?s))) \<le> card {h}"
      by (intro card_mono) simp_all
    moreover from d have "card (set (map fst (typing_timeouts ?s))) = length (map fst (typing_timeouts ?s))"
      by (rule distinct_card)
    ultimately have "length (map fst (typing_timeouts ?s)) \<le> card {h}" by (simp only:)
    then show ?thesis by simp
  qed
qed

text \<open>
  Claim C6. Both surfaces keep at most one typing session (\<open>roadmap_one_session\<close>,
  \<open>skills_one_typing_timeout\<close>), and on the roadmap the text shown is always a prefix
  of one description. The skills box, however, has a second writer: \<open>animateSkills\<close>
  empties it without clearing \<open>typingTimeout\<close>. When the reveal replays while a
  description is being typed, the pending \<open>typeChar\<close> goes on appending from where it
  was, and the box shows the tail \<open>bc\<close> of the description \<open>abc\<close>, which is a prefix
  of no description.
\<close>

theorem replayed_reveal_blanks_running_typewriter:
  "skillDescBox (skills_run revealed_skills [SkillClick 0]) = ''a'' \<and>
   skillDescBox (skills_run revealed_skills [SkillClick 0, RevealObserver [True]]) = [] \<and>
   map (\<lambda>t. snd (snd t)) (timeouts (skills_run revealed_skills [SkillClick 0, RevealObserver [True]]))
     = [TypeChar ''abc'' 1, OpenLeft, OpenRight, StaggerItems] \<and>
   skillDescBox (skills_run revealed_skills [SkillClick 0, RevealObserver [True], TimeoutFires 6]) = ''b'' \<and>
   skillDescBox (skills_run revealed_skills
      [SkillClick 0, RevealObserver [True], TimeoutFires 6, TimeoutFires 10]) = ''bc'' \<and>
   skillDescBox (skills_run revealed_skills
      [SkillClick 0, RevealObserver [True], TimeoutFires 6, TimeoutFires 10, TimeoutFires 11]) = ''bc'' \<and>
   \<not> is_prefix ''bc'' ''abc'' \<and> \<not> is_prefix ''bc'' ''xyz''"
  by code_simp

section \<open>Properties of the contact form\<close>

lemmas form_defs = submit_def submit_begin_def submit_settle_def clear_timeout_fires_def

text \<open>
  Claim C7. The submit handler prevents the default action, shows the sending status
  and hands the form's fields to \<open>fetch\<close> once. When the request resolves with
  \<open>response.ok\<close> the status is the success text, the fields are reset and a timeout is
  set that empties the status; when it resolves otherwise the status is the failure
  text and the fields stay as they were; when it rejects the status is the network
  error text, different from the failure text. Whatever the outcome, one submit adds
  exactly one request to the log.
\<close>

theorem submit_outcomes:
  "default_prevented (submit_begin s) = Suc (default_prevented s) \<and>
   status_text (submit_begin s) = status_sending \<and>
   form_fields (submit_begin s) = form_fields s \<and>
   fetch_log (submit_begin s) = fetch_log s @ [form_fields s] \<and>
   status_text (submit (Resolved True) s) = status_success \<and>
   form_fields (submit (Resolved True) s) = form_defaults s \<and>
   clear_timeouts (submit (Resolved True) s) = clear_timeouts s @ [3000] \<and>
   status_text (clear_timeout_fires (submit (Resolved True) s)) = [] \<and>
   status_text (submit (Resolved False) s) = status_failure \<and>
   form_fields (submit (Resolved False) s) = form_fields s \<and>
   clear_timeouts (submit (Resolved False) s) = clear_timeouts s \<and>
   status_text (submit Rejected s) = status_network_error \<and>
   form_fields (submit Rejected s) = form_fields s \<and>
   clear_timeouts (submit Rejected s) = clear_timeouts s \<and>
   fetch_log (submit outcome s) = fetch_log s @ [form_fields s] \<and>
   length (fetch_log (submit outcome s)) = Suc (length (fetch_log s)) \<and>
   in_flight (submit outcome s) = in_flight s \<and>
   distinct [status_sending, status_success, status_failure, status_network_error, []]"
proof -
  have started: "default_prevented (submit_begin s) = Suc (default_prevented s) \<and>
   status_text (submit_begin s) = status_sending \<and>
   form_fields (submit_begin s) = form_fields s \<and>
   fetch_log (submit_begin s) = fetch_log s @ [form_fields s]"
    by (simp add: submit_begin_def)
  have ok: "status_text (submit (Resolved True) s) = status_success \<and>
   form_fields (submit (Resolved True) s) = form_defaults s \<and>
   clear_timeouts (submit (Resolved True) s) = clear_timeouts s @ [3000] \<and>
   status_text (clear_timeout_fires (submit (Resolved True) s)) = []"
    by (simp add: form_defs)
  have not_ok: "status_text (submit (Resolved False) s) = status_failure \<and>
   form_fields (submit (Resolved False) s) = form_fields s \<and>
   clear_timeouts (submit (Resolved False) s) = clear_timeouts s"
    by (simp add: form_defs)
  have rejected: "status_text (submit Rejected s) = status_network_error \<and>
   form_fields (submit Rejected s) = form_fields s \<and>
   clear_timeouts (submit Rejected s) = clear_timeouts s"
    by (simp add: form_defs)
  have once: "fetch_log (submit outcome s) = fetch_log s @ [form_fields s] \<and>
   length (fetch_log (submit outcome s)) = Suc (length (fetch_log s)) \<and>
   in_flight (submit outcome s) = in_flight s"
    by (cases outcome) (simp_all add: form_defs Let_def)
  have texts: "distinct [status_sending, status_success, status_failure, status_network_error, []]"
    by (simp add: status_sending_def status_success_def status_failure_def status_network_error_def)
  from started ok not_ok rejected once texts show ?thesis by blast
qed

text \<open>An instance: a filled-in form.\<close>

theorem submit_outcomes_witness:
  "status_text (submit_begin filled_form) = ''Sending...'' \<and>
   form_fields (submit (Resolved True) filled_form) = ['''', '''', ''''] \<and>
   status_text (submit (Resolved True) filled_form) = status_success \<and>
   form_fields (submit (Resolved False) filled_form) = [''Ada'', ''ada@example.org'', ''Hello''] \<and>
   status_text (submit (Resolved False) filled_form) = status_failure \<and>
   status_text (submit Rejected filled_form) = status_network_error \<and>
   fetch_log (submit Rejected filled_form) = [[''Ada'', ''ada@example.org'', ''Hello'']]"
  using submit_outcomes [of filled_form Rejected]
  by (simp add: filled_form_def status_sending_def)

section \<open>Properties of the particle and wheel sets\<close>

lemma unit_scaled:
  fixes r :: real
  assumes "0 \<le> r" and "r < 1" and "0 < w"
  shows "0 \<le> r * w \<and> r * w < w"
proof -
  from assms have "r * w < 1 * w" by (intro mult_strict_right_mono) simp_all
  with assms show ?thesis by simp
qed

lemma Dust_reset_inside:
  assumes "\<forall>i. 0 \<le> rnd i \<and> rnd i < 1" and "0 < fst canvas" and "0 < snd canvas"
  shows "dust_inside canvas (fst (Dust_reset canvas rnd n))"
  using assms unit_scaled [of "rnd n" "real (fst canvas)"]
    unit_scaled [of "rnd (n + 1)" "real (snd canvas)"]
  by (simp add: dust_inside_def inside_box_def Dust_reset_def)

lemma CarParticle_reset_inside:
  assumes "\<forall>i. 0 \<le> rnd i \<and> rnd i < 1" and "0 < fst canvas" and "0 < snd canvas"
  shows "car_inside canvas (fst (CarParticle_reset canvas rnd n))"
  using assms unit_scaled [of "rnd n" "real (fst canvas)"]
    unit_scaled [of "rnd (n + 1)" "real (snd canvas)"]
  by (simp add: car_inside_def inside_box_def CarParticle_reset_def)

lemma push_dust_inside:
  assumes "\<forall>i. 0 \<le> rnd i \<and> rnd i < 1" and "0 < fst canvas" and "0 < snd canvas"
  shows "list_all (dust_inside canvas) (fst (push_dust k canvas rnd n)) \<and>
         length (fst (push_dust k canvas rnd n)) = k"
proof (induction k arbitrary: n)
  case 0
  then show ?case by simp
next
  case (Suc k)
  from Suc [of "snd (Dust_reset canvas rnd n)"] Dust_reset_inside [OF assms, of n]
  show ?case by (simp add: case_prod_unfold Let_def)
qed

lemma push_cars_inside:
  assumes "\<forall>i. 0 \<le> rnd i \<and> rnd i < 1" and "0 < fst canvas" and "0 < snd canvas"
  shows "list_all (car_inside canvas) (fst (push_cars k canvas rnd n)) \<and>
         length (fst (push_cars k canvas rnd n)) = k"
proof (induction k arbitrary: n)
  case 0
  then show ?case by simp
next
  case (Suc k)
  from Suc [of "snd (CarParticle_reset canvas rnd n)"] CarParticle_reset_inside [OF assms, of n]
  show ?case by (simp add: case_prod_unfold Let_def)
qed

lemma new_wheel_range:
  assumes "\<forall>i. 0 \<le> rnd i \<and> rnd i < 1"
  shows "inside_box (wheel_x (fst (new_wheel rect rnd n))) (wheel_y (fst (new_wheel rect rnd n)))
           (max 100 (fst rect - 100)) (max 100 (snd rect - 100))"
proof -
  have "0 < max 100 (fst rect - 100)" "0 < max 100 (snd rect - 100)" by simp_all
  with assms unit_scaled [of "rnd n" "max 100 (fst rect - 100)"]
    unit_scaled [of "rnd (n + 1)" "max 100 (snd rect - 100)"]
  show ?thesis by (simp add: inside_box_def new_wheel_def Let_def)
qed

lemma push_wheels_range:
  assumes "\<forall>i. 0 \<le> rnd i \<and> rnd i < 1"
  shows "list_all (\<lambda>w. inside_box (wheel_x w) (wheel_y w) (max 100 (fst rect - 100)) (max 100 (snd rect - 100)))
           (fst (push_wheels k rect rnd n)) \<and>
         length (fst (push_wheels k rect rnd n)) = k"
proof (induction k arbitrary: n)
  case 0
  then show ?case by simp
next
  case (Suc k)
  from Suc [of "snd (new_wheel rect rnd n)"] new_wheel_range [OF assms, of rect n]
  show ?case by (simp add: case_prod_unfold Let_def)
qed

lemma inside_box_mono: "inside_box x y w h \<Longrightarrow> w \<le> w' \<Longrightarrow> h \<le> h' \<Longrightarrow> inside_box x y w' h'"
  by (auto simp: inside_box_def)

text \<open>
  Claim C8, as amended. With every random number in \<open>[0, 1)\<close>: after the particle
  canvas's resize handler has run, every dust and car particle lies in
  \<open>[0, width) \<times> [0, height)\<close> of the new canvas, provided both are positive; after
  \<open>initWheels\<close> every wheel lies in
  \<open>[0, max(100, width - 100)) \<times> [0, max(100, height - 100))\<close> of the section, hence
  inside the section when it is at least 100 px wide and high. Both sets are rebuilt
  whole, at their full count.
\<close>

theorem reinitialised_positions_in_bounds:
  assumes "\<forall>i. 0 \<le> rnd i \<and> rnd i < 1"
    and "canvas = canvas_size offsetWidth offsetHeight innerWidth innerHeight"
    and "ps = fst (particles_resized lp offsetWidth offsetHeight innerWidth innerHeight rnd n)"
    and "ws = fst (wheels_init lp rect rnd m)"
  shows "(0 < fst canvas \<and> 0 < snd canvas \<longrightarrow>
            list_all (dust_inside canvas) (fst ps) \<and> list_all (car_inside canvas) (snd ps)) \<and>
         length (fst ps) = numDust lp \<and> length (snd ps) = numCars lp \<and>
         list_all (\<lambda>w. inside_box (wheel_x w) (wheel_y w) (max 100 (fst rect - 100)) (max 100 (snd rect - 100))) ws \<and>
         (100 \<le> fst rect \<and> 100 \<le> snd rect \<longrightarrow> list_all (wheel_inside rect) ws) \<and>
         length ws = wheelCount lp"
proof -
  let ?kd = "numDust lp" and ?kc = "numCars lp"
  let ?n1 = "snd (push_dust ?kd canvas rnd n)"
  have ps: "fst ps = fst (push_dust ?kd canvas rnd n)" "snd ps = fst (push_cars ?kc canvas rnd ?n1)"
    unfolding assms(3) particles_resized_def particles_init_def assms(2) [symmetric]
    by (simp_all add: case_prod_unfold Let_def)
  have len: "length (fst ps) = ?kd" "length (snd ps) = ?kc"
  proof -
    have "length (fst (push_dust k canvas rnd j)) = k" for k j
      by (induction k arbitrary: j) (simp_all add: case_prod_unfold Let_def)
    moreover have "length (fst (push_cars k canvas rnd j)) = k" for k j
      by (induction k arbitrary: j) (simp_all add: case_prod_unfold Let_def)
    ultimately show "length (fst ps) = ?kd" "length (snd ps) = ?kc" unfolding ps by blast+
  qed
  have inside: "0 < fst canvas \<and> 0 < snd canvas \<longrightarrow>
      list_all (dust_inside canvas) (fst ps) \<and> list_all (car_inside canvas) (snd ps)"
    unfolding ps using push_dust_inside [OF assms(1)] push_cars_inside [OF assms(1)] by blast
  have ws: "list_all (\<lambda>w. inside_box (wheel_x w) (wheel_y w) (max 100 (fst rect - 100)) (max 100 (snd rect - 100))) ws"
    "length ws = wheelCount lp"
    unfolding assms(4) wheels_init_def using push_wheels_range [OF assms(1)] by blast+
  have big: "100 \<le> fst rect \<and> 100 \<le> snd rect \<longrightarrow> list_all (wheel_inside rect) ws"
  proof
    assume r: "100 \<le> fst rect \<and> 100 \<le> snd rect"
    then have "max 100 (fst rect - 100) \<le> fst rect" "max 100 (snd rect - 100) \<le> snd rect"
      by simp_all
    with ws(1) show "list_all (wheel_inside rect) ws"
      unfolding wheel_inside_def list_all_iff by (blast intro: inside_box_mono)
  qed
  from inside len ws big show ?thesis by blast
qed


lemma sample_rnd_unit: "\<forall>i. 0 \<le> sample_rnd i \<and> sample_rnd i < 1"
  by (simp add: sample_rnd_def)

text \<open>An instance: a 320 by 200 canvas sized from the window, a 400 by 300 section.\<close>

theorem reinitialised_positions_in_bounds_witness:
  "canvas_size 0 0 320 200 = (320, 200) \<and>
   list_all (dust_inside (320, 200)) (fst (fst (particles_resized True 0 0 320 200 sample_rnd 0))) \<and>
   list_all (car_inside (320, 200)) (snd (fst (particles_resized True 0 0 320 200 sample_rnd 0))) \<and>
   length (fst (fst (particles_resized True 0 0 320 200 sample_rnd 0))) = 30 \<and>
   length (snd (fst (particles_resized True 0 0 320 200 sample_rnd 0))) = 2 \<and>
   list_all (wheel_inside (400, 300)) (fst (wheels_init True (400, 300) sample_rnd 0)) \<and>
   length (fst (wheels_init True (400, 300) sample_rnd 0)) = 3"
proof -
  have c: "canvas_size 0 0 320 200 = (320, 200)" by (simp add: canvas_size_def)
  from reinitialised_positions_in_bounds [OF sample_rnd_unit c [symmetric] refl refl,
      of True 0 "(400, 300)" 0] c
  show ?thesis by (simp add: numDust_def numCars_def wheelCount_def)
qed

text \<open>
  The claim as stated fails on small layers: in a section 50 px wide the first wheel
  starts at \<open>0.9 * max(100, 50 - 100) = 90\<close>, and on a canvas of width 0 every
  particle has \<open>x = 0\<close>, which is not below the width.
\<close>

theorem small_layers_leave_positions_outside:
  "wheel_x (hd (fst (wheels_init True (50, 300) sample_rnd 0))) = 90 \<and>
   \<not> wheel_inside (50, 300) (hd (fst (wheels_init True (50, 300) sample_rnd 0))) \<and>
   \<not> list_all (wheel_inside (50, 300)) (fst (wheels_init True (50, 300) sample_rnd 0)) \<and>
   canvas_size 0 0 0 0 = (0, 0) \<and>
   dust_x (hd (fst (fst (particles_resized True 0 0 0 0 sample_rnd 0)))) = 0 \<and>
   \<not> list_all (dust_inside (0, 0)) (fst (fst (particles_resized True 0 0 0 0 sample_rnd 0)))"
  by code_simp

end
